theory Spec2Isabelle
  imports Main "HOL-Library.Word"
begin

unbundle bit_operations_syntax

section \<open>BinaryReader: a position-tracked view over an immutable byte buffer\<close>

text \<open>
  JavaScript numbers that hold offsets, lengths and unsigned field values are modelled
  as \<open>int\<close> (every value that occurs is an integer below \<open>2^53\<close>, where doubles are
  exact); bytes are \<open>8 word\<close>. A thrown \<open>Error\<close> is a value of type \<open>error\<close>;
  a streaming read returns the result together with the reader, whose position is
  kept when the read throws.
\<close>

type_synonym byte = "8 word"

datatype error =
    InvalidSeek int
  | BufferOverrun int int
  | RangeError
  | TypeError

record reader =
  buffer :: "byte list"
  position :: int

definition rsize :: "reader \<Rightarrow> int" where
  "rsize r = int (length (buffer r))"

definition tell :: "reader \<Rightarrow> int" where
  "tell r = position r"

definition seek :: "int \<Rightarrow> reader \<Rightarrow> (error + unit) \<times> reader" where
  "seek p r =
     (if p < 0 \<or> p > rsize r then (Inl (InvalidSeek p), r)
      else (Inr (), r\<lparr>position := p\<rparr>))"

definition peek :: "reader \<Rightarrow> (error + int) \<times> reader" where
  "peek r =
     (if position r \<ge> rsize r then (Inl (BufferOverrun (position r) 1), r)
      else if position r < 0 then (Inl RangeError, r)
      else (Inr (uint (buffer r ! nat (position r))), r))"

definition checkBounds :: "reader \<Rightarrow> int \<Rightarrow> int \<Rightarrow> error + unit" where
  "checkBounds r off len =
     (if off < 0 \<or> off + len > rsize r then Inl (BufferOverrun off len) else Inr ())"

definition byteAt :: "reader \<Rightarrow> int \<Rightarrow> int" where
  "byteAt r off = uint (buffer r ! nat off)"

definition u8At :: "reader \<Rightarrow> int \<Rightarrow> error + int" where
  "u8At r off = (case checkBounds r off 1 of Inl e \<Rightarrow> Inl e | Inr _ \<Rightarrow> Inr (byteAt r off))"

definition i8At :: "reader \<Rightarrow> int \<Rightarrow> error + int" where
  "i8At r off =
     (case checkBounds r off 1 of Inl e \<Rightarrow> Inl e | Inr _ \<Rightarrow> Inr (sint (buffer r ! nat off)))"

definition u16leAt :: "reader \<Rightarrow> int \<Rightarrow> error + int" where
  "u16leAt r off =
     (case checkBounds r off 2 of Inl e \<Rightarrow> Inl e
      | Inr _ \<Rightarrow> Inr (byteAt r off + 256 * byteAt r (off + 1)))"

definition i16leAt :: "reader \<Rightarrow> int \<Rightarrow> error + int" where
  "i16leAt r off =
     (case checkBounds r off 2 of Inl e \<Rightarrow> Inl e
      | Inr _ \<Rightarrow>
          (let u = byteAt r off + 256 * byteAt r (off + 1)
           in Inr (if u \<ge> 32768 then u - 65536 else u)))"

definition getUint32le :: "reader \<Rightarrow> int \<Rightarrow> int" where
  "getUint32le r off =
     byteAt r off + 256 * byteAt r (off + 1) + 65536 * byteAt r (off + 2)
       + 16777216 * byteAt r (off + 3)"

definition u32leAt :: "reader \<Rightarrow> int \<Rightarrow> error + int" where
  "u32leAt r off =
     (case checkBounds r off 4 of Inl e \<Rightarrow> Inl e | Inr _ \<Rightarrow> Inr (getUint32le r off))"

definition u32beAt :: "reader \<Rightarrow> int \<Rightarrow> error + int" where
  "u32beAt r off =
     (case checkBounds r off 4 of Inl e \<Rightarrow> Inl e
      | Inr _ \<Rightarrow>
          Inr (16777216 * byteAt r off + 65536 * byteAt r (off + 1)
                 + 256 * byteAt r (off + 2) + byteAt r (off + 3)))"

definition i32leAt :: "reader \<Rightarrow> int \<Rightarrow> error + int" where
  "i32leAt r off =
     (case checkBounds r off 4 of Inl e \<Rightarrow> Inl e
      | Inr _ \<Rightarrow>
          (let u = getUint32le r off in Inr (if u \<ge> 2147483648 then u - 4294967296 else u)))"

text \<open>\<open>u64leAt\<close> composes the value from two 32-bit halves: \<open>(hi << 32n) | lo\<close>.\<close>

definition u64leAt :: "reader \<Rightarrow> int \<Rightarrow> error + int" where
  "u64leAt r off =
     (case checkBounds r off 8 of Inl e \<Rightarrow> Inl e
      | Inr _ \<Rightarrow> Inr (4294967296 * getUint32le r (off + 4) + getUint32le r off))"

definition i64leAt :: "reader \<Rightarrow> int \<Rightarrow> error + int" where
  "i64leAt r off =
     (case checkBounds r off 8 of Inl e \<Rightarrow> Inl e
      | Inr _ \<Rightarrow>
          (case u64leAt r off of Inl e \<Rightarrow> Inl e
           | Inr u \<Rightarrow> Inr (if u \<ge> 2 ^ 63 then u - 2 ^ 64 else u)))"

definition bytesAt :: "reader \<Rightarrow> int \<Rightarrow> int \<Rightarrow> error + byte list" where
  "bytesAt r off len =
     (case checkBounds r off len of Inl e \<Rightarrow> Inl e
      | Inr _ \<Rightarrow> if len < 0 then Inl RangeError
                 else Inr (take (nat len) (drop (nat off) (buffer r))))"

text \<open>
  The streaming reads: read at the current position, then advance it. When the
  absolute read throws, the position is not advanced.
\<close>

definition advance :: "(reader \<Rightarrow> int \<Rightarrow> error + 'a) \<Rightarrow> int \<Rightarrow> reader \<Rightarrow> (error + 'a) \<times> reader" where
  "advance rd n r =
     (case rd r (position r) of
        Inl e \<Rightarrow> (Inl e, r)
      | Inr v \<Rightarrow> (Inr v, r\<lparr>position := position r + n\<rparr>))"

definition u8 :: "reader \<Rightarrow> (error + int) \<times> reader" where "u8 = advance u8At 1"
definition i8 :: "reader \<Rightarrow> (error + int) \<times> reader" where "i8 = advance i8At 1"
definition u16le :: "reader \<Rightarrow> (error + int) \<times> reader" where "u16le = advance u16leAt 2"
definition i16le :: "reader \<Rightarrow> (error + int) \<times> reader" where "i16le = advance i16leAt 2"
definition u32le :: "reader \<Rightarrow> (error + int) \<times> reader" where "u32le = advance u32leAt 4"
definition u32be :: "reader \<Rightarrow> (error + int) \<times> reader" where "u32be = advance u32beAt 4"
definition i32le :: "reader \<Rightarrow> (error + int) \<times> reader" where "i32le = advance i32leAt 4"
definition u64le :: "reader \<Rightarrow> (error + int) \<times> reader" where "u64le = advance u64leAt 8"
definition i64le :: "reader \<Rightarrow> (error + int) \<times> reader" where "i64le = advance i64leAt 8"

definition readBuffer :: "int \<Rightarrow> reader \<Rightarrow> (error + byte list) \<times> reader" where
  "readBuffer len r =
     (case bytesAt r (position r) len of
        Inl e \<Rightarrow> (Inl e, r)
      | Inr v \<Rightarrow> (Inr v, r\<lparr>position := position r + len\<rparr>))"

text \<open>Sequencing of reader actions; an exception skips the rest and keeps the reader.\<close>

definition rbind ::
  "(reader \<Rightarrow> (error + 'a) \<times> reader) \<Rightarrow> ('a \<Rightarrow> reader \<Rightarrow> (error + 'b) \<times> reader)
     \<Rightarrow> reader \<Rightarrow> (error + 'b) \<times> reader" where
  "rbind m f r = (case m r of (Inl e, r') \<Rightarrow> (Inl e, r') | (Inr v, r') \<Rightarrow> f v r')"

definition rreturn :: "'a \<Rightarrow> reader \<Rightarrow> (error + 'a) \<times> reader" where
  "rreturn v r = (Inr v, r)"

section \<open>Dates\<close>

text \<open>
  A JavaScript \<open>Date\<close> is its time value: milliseconds since 1970-01-01T00:00:00Z, or
  the invalid date when the value is outside \<open>\<plusminus>8.64e15\<close> (TimeClip).
\<close>

datatype jsdate = Date int | InvalidDate

definition newDate :: "int \<Rightarrow> jsdate" where
  "newDate ms = (if \<bar>ms\<bar> > 8640000000000000 then InvalidDate else Date ms)"

text \<open>BigInt division truncates towards zero.\<close>

definition bigint_div :: "int \<Rightarrow> int \<Rightarrow> int" where
  "bigint_div a b = sgn a * sgn b * (\<bar>a\<bar> div \<bar>b\<bar>)"

text \<open>\<open>filetimeToDate\<close> (BinaryReader utilities).\<close>

definition filetimeToDate :: "int \<Rightarrow> jsdate" where
  "filetimeToDate qword =
     (if qword = 0 then newDate 0
      else (let unixTimeNs = qword - 116444736000000000;
                unixTimeMs = bigint_div unixTimeNs 10000
            in newDate unixTimeMs))"

section \<open>Strings and number formatting\<close>

text \<open>
  A JavaScript string is a sequence of UTF-16 code units. Text that the parser decodes
  from the file is kept as such a sequence; ASCII text that the code itself writes is
  embedded with \<open>ascii\<close>.
\<close>

type_synonym jsstring = "nat list"

definition ascii :: "string \<Rightarrow> jsstring" where
  "ascii s = map of_char s"

definition is_high_surrogate :: "nat \<Rightarrow> bool" where
  "is_high_surrogate u = (0xD800 \<le> u \<and> u \<le> 0xDBFF)"

definition is_low_surrogate :: "nat \<Rightarrow> bool" where
  "is_low_surrogate u = (0xDC00 \<le> u \<and> u \<le> 0xDFFF)"

text \<open>
  \<open>new TextDecoder('utf-16le').decode(bytes)\<close> without the byte order mark handling:
  bytes are paired into code units, a surrogate that is not part of a pair and an odd
  byte at the end become U+FFFD. The first argument is the pending lead surrogate.
\<close>

fun utf16le_units :: "nat option \<Rightarrow> byte list \<Rightarrow> jsstring" where
  "utf16le_units None [] = []"
| "utf16le_units (Some ls) [] = [0xFFFD]"
| "utf16le_units ls [b] = [0xFFFD]"
| "utf16le_units None (b0 # b1 # bs) =
     (let cu = unat b0 + 256 * unat b1
      in if is_high_surrogate cu then utf16le_units (Some cu) bs
         else if is_low_surrogate cu then 0xFFFD # utf16le_units None bs
         else cu # utf16le_units None bs)"
| "utf16le_units (Some ls) (b0 # b1 # bs) =
     (let cu = unat b0 + 256 * unat b1
      in if is_low_surrogate cu then ls # cu # utf16le_units None bs
         else if is_high_surrogate cu then 0xFFFD # utf16le_units (Some cu) bs
         else 0xFFFD # cu # utf16le_units None bs)"

text \<open>The decoder drops a leading byte order mark (\<open>FF FE\<close>).\<close>

definition utf16le_decode :: "byte list \<Rightarrow> jsstring" where
  "utf16le_decode bs =
     (case bs of
        b0 # b1 # rest \<Rightarrow>
          if b0 = 0xFF \<and> b1 = 0xFE then utf16le_units None rest else utf16le_units None bs
      | _ \<Rightarrow> utf16le_units None bs)"

text \<open>\<open>s.replace(/\0+$/, '')\<close>: the trailing NUL code units are removed.\<close>

definition strip_trailing_nuls :: "jsstring \<Rightarrow> jsstring" where
  "strip_trailing_nuls s = rev (dropWhile (\<lambda>u. u = 0) (rev s))"

text \<open>\<open>s.split('\u0000')\<close>: at least one part, also for the empty string.\<close>

fun split_nul :: "jsstring \<Rightarrow> jsstring list" where
  "split_nul [] = [[]]"
| "split_nul (u # us) =
     (if u = 0 then [] # split_nul us
      else (case split_nul us of p # ps \<Rightarrow> (u # p) # ps | [] \<Rightarrow> [[u]]))"

text \<open>Positional digits of a natural number in base \<open>b\<close>, most significant first.\<close>

function digits_of :: "nat \<Rightarrow> nat \<Rightarrow> nat list" where
  "digits_of b n = (if b < 2 \<or> n < b then [n] else digits_of b (n div b) @ [n mod b])"
  by pat_completeness auto
termination
  by (relation "measure (\<lambda>(b, n). n)") auto

definition digit_char :: "nat \<Rightarrow> char" where
  "digit_char d = (if d < 10 then char_of (48 + d) else char_of (87 + d))"

text \<open>\<open>n.toString(16)\<close> and \<open>String(n)\<close> for integers.\<close>

definition toString16 :: "nat \<Rightarrow> string" where
  "toString16 n = map digit_char (digits_of 16 n)"

definition string_of_int :: "int \<Rightarrow> string" where
  "string_of_int i =
     (if i < 0 then CHR ''-'' # map digit_char (digits_of 10 (nat (- i)))
      else map digit_char (digits_of 10 (nat i)))"

definition padStart :: "nat \<Rightarrow> char \<Rightarrow> string \<Rightarrow> string" where
  "padStart n c s = replicate (n - length s) c @ s"

definition toUpperCase :: "string \<Rightarrow> string" where
  "toUpperCase s =
     map (\<lambda>c. if (97::nat) \<le> of_char c \<and> of_char c \<le> (122::nat)
              then char_of (of_char c - (32::nat)) else c) s"

section \<open>Calendar arithmetic of the Date constructor\<close>

text \<open>
  \<open>new Date(year, month, day, hours, minutes, seconds, ms)\<close> reads its arguments as
  local time (ECMAScript: MakeDay, MakeTime, MakeDate, then \<open>UTC(t) = t - LocalTZA(t)\<close>
  and TimeClip). The time zone of the machine is the parameter \<open>tza\<close>: the offset of
  local time from UTC, in milliseconds, at a given local time.
\<close>

definition DayFromYear :: "int \<Rightarrow> int" where
  "DayFromYear y =
     365 * (y - 1970) + (y - 1969) div 4 - (y - 1901) div 100 + (y - 1601) div 400"

definition InLeapYear :: "int \<Rightarrow> bool" where
  "InLeapYear y = ((y mod 4 = 0 \<and> y mod 100 \<noteq> 0) \<or> y mod 400 = 0)"

definition month_start :: "int \<Rightarrow> int \<Rightarrow> int" where
  "month_start y mn =
     [0, 31, 59, 90, 120, 151, 181, 212, 243, 273, 304, 334] ! nat mn
       + (if InLeapYear y \<and> mn \<ge> 2 then 1 else 0)"

definition MakeDay :: "int \<Rightarrow> int \<Rightarrow> int \<Rightarrow> int" where
  "MakeDay year month dt =
     (let ym = year + month div 12; mn = month mod 12
      in DayFromYear ym + month_start ym mn + dt - 1)"

definition MakeTime :: "int \<Rightarrow> int \<Rightarrow> int \<Rightarrow> int \<Rightarrow> int" where
  "MakeTime h m s milli = h * 3600000 + m * 60000 + s * 1000 + milli"

definition MakeDate :: "int \<Rightarrow> int \<Rightarrow> int" where
  "MakeDate day time = day * 86400000 + time"

definition newDateLocal ::
  "(int \<Rightarrow> int) \<Rightarrow> int \<Rightarrow> int \<Rightarrow> int \<Rightarrow> int \<Rightarrow> int \<Rightarrow> int \<Rightarrow> int \<Rightarrow> jsdate" where
  "newDateLocal tza year month day hour minute second ms =
     (let yr = (if 0 \<le> year \<and> year \<le> 99 then 1900 + year else year);
          finalDate = MakeDate (MakeDay yr month day) (MakeTime hour minute second ms)
      in newDate (finalDate - tza finalDate))"

section \<open>VariantValueParser\<close>

record bxml_value =
  bxmlData :: "byte list option"
  bxmlLength :: "int option"
  isBXml :: bool
  isEmpty :: bool
  baseOffset :: "int option"

text \<open>
  The values \<open>parse\<close> returns. \<open>VUtf8 bs\<close> stands for the string that
  \<open>TextDecoder('utf-8')\<close> decodes from \<open>bs\<close>; \<open>VFloat32\<close> and \<open>VFloat64\<close> carry the
  bit pattern of the float that was read.
\<close>

datatype variant =
    VNull
  | VStr jsstring
  | VUtf8 "byte list"
  | VNum int
  | VBig int
  | VFloat32 int
  | VFloat64 int
  | VBool bool
  | VBytes "byte list"
  | VDate jsdate
  | VObj bxml_value
  | VArr "jsstring list"

definition bytesHere :: "int \<Rightarrow> reader \<Rightarrow> (error + byte list) \<times> reader" where
  "bytesHere n r = (bytesAt r (tell r) n, r)"

definition skip :: "int \<Rightarrow> reader \<Rightarrow> (error + unit) \<times> reader" where
  "skip n r = seek (tell r + n) r"

definition f32le :: "reader \<Rightarrow> (error + int) \<times> reader" where "f32le = advance u32leAt 4"
definition f64le :: "reader \<Rightarrow> (error + int) \<times> reader" where "f64le = advance u64leAt 8"

definition parseWString :: "reader \<Rightarrow> (error + jsstring) \<times> reader" where
  "parseWString =
     rbind u16le (\<lambda>len.
       if len = 0 then rreturn []
       else rbind (bytesHere (len * 2)) (\<lambda>bytes.
            rbind (skip (len * 2)) (\<lambda>_.
            rreturn (utf16le_decode bytes))))"

definition parseWStringWithLength :: "int \<Rightarrow> reader \<Rightarrow> (error + jsstring) \<times> reader" where
  "parseWStringWithLength declaredLength =
     (if declaredLength = 0 then rreturn []
      else rbind (bytesHere declaredLength) (\<lambda>bytes.
           rbind (skip declaredLength) (\<lambda>_.
           rreturn (strip_trailing_nuls (utf16le_decode bytes)))))"

definition parseString :: "reader \<Rightarrow> (error + variant) \<times> reader" where
  "parseString =
     rbind u16le (\<lambda>len.
       if len = 0 then rreturn (VStr [])
       else rbind (bytesHere len) (\<lambda>bytes.
            rbind (skip len) (\<lambda>_.
            rreturn (VUtf8 bytes))))"

definition parseStringWithLength :: "int \<Rightarrow> reader \<Rightarrow> (error + variant) \<times> reader" where
  "parseStringWithLength declaredLength =
     (if declaredLength = 0 then rreturn (VStr [])
      else rbind (bytesHere declaredLength) (\<lambda>bytes.
           rbind (skip declaredLength) (\<lambda>_.
           rreturn (VUtf8 (rev (dropWhile (\<lambda>b. b = 0) (rev bytes)))))))"

definition parseBinary :: "reader \<Rightarrow> (error + byte list) \<times> reader" where
  "parseBinary =
     rbind u32le (\<lambda>len.
       if len = 0 then rreturn []
       else rbind (bytesHere len) (\<lambda>bytes.
            rbind (skip len) (\<lambda>_.
            rreturn bytes)))"

definition hex2 :: "byte \<Rightarrow> string" where
  "hex2 b = padStart 2 (CHR ''0'') (toString16 (unat b))"

definition parseGuid :: "reader \<Rightarrow> (error + jsstring) \<times> reader" where
  "parseGuid =
     rbind u32le (\<lambda>data1.
     rbind u16le (\<lambda>data2.
     rbind u16le (\<lambda>data3.
     rbind (bytesHere 8) (\<lambda>data4.
     rbind (skip 8) (\<lambda>_.
       (let data4Hex = concat (map hex2 data4)
        in rreturn (ascii (toUpperCase
             (''{'' @ padStart 8 (CHR ''0'') (toString16 (nat data1)) @ ''-''
                @ padStart 4 (CHR ''0'') (toString16 (nat data2)) @ ''-''
                @ padStart 4 (CHR ''0'') (toString16 (nat data3)) @ ''-''
                @ take 4 data4Hex @ ''-'' @ drop 4 data4Hex @ ''}'')))))))))"

definition parseFileTime :: "reader \<Rightarrow> (error + jsdate) \<times> reader" where
  "parseFileTime =
     rbind u64le (\<lambda>fileTime.
       (let milliseconds = bigint_div fileTime 10000 - 11644473600000
        in rreturn (newDate milliseconds)))"

definition parseSystemTime :: "(int \<Rightarrow> int) \<Rightarrow> reader \<Rightarrow> (error + jsdate) \<times> reader" where
  "parseSystemTime tza =
     rbind u16le (\<lambda>year.
     rbind u16le (\<lambda>month.
     rbind u16le (\<lambda>dayOfWeek.
     rbind u16le (\<lambda>day.
     rbind u16le (\<lambda>hour.
     rbind u16le (\<lambda>minute.
     rbind u16le (\<lambda>second.
     rbind u16le (\<lambda>milliseconds.
       rreturn (newDateLocal tza year (month - 1) day hour minute second milliseconds)))))))))"

fun read_subAuthorities :: "nat \<Rightarrow> reader \<Rightarrow> (error + int list) \<times> reader" where
  "read_subAuthorities 0 r = (Inr [], r)"
| "read_subAuthorities (Suc n) r =
     (case u32le r of
        (Inl e, r') \<Rightarrow> (Inl e, r')
      | (Inr v, r') \<Rightarrow>
          (case read_subAuthorities n r' of
             (Inl e, r'') \<Rightarrow> (Inl e, r'')
           | (Inr vs, r'') \<Rightarrow> (Inr (v # vs), r'')))"

text \<open>\<open>xs.join(sep)\<close>.\<close>

fun join :: "'c list \<Rightarrow> 'c list list \<Rightarrow> 'c list" where
  "join sep [] = []"
| "join sep [x] = x"
| "join sep (x # y # ys) = x @ sep @ join sep (y # ys)"

text \<open>The bitwise \<open>|\<close> and \<open><<\<close> of JavaScript give a signed 32-bit result.\<close>

definition to_int32 :: "int \<Rightarrow> int" where
  "to_int32 u = (let m = u mod 4294967296 in if m \<ge> 2147483648 then m - 4294967296 else m)"

definition parseSid :: "reader \<Rightarrow> (error + jsstring) \<times> reader" where
  "parseSid =
     rbind u8 (\<lambda>revision.
     rbind u8 (\<lambda>subAuthorityCount.
     rbind (bytesHere 6) (\<lambda>ia.
     rbind (skip 6) (\<lambda>_.
       (let authority = to_int32 (16777216 * uint (ia ! 2) + 65536 * uint (ia ! 3)
                                   + 256 * uint (ia ! 4) + uint (ia ! 5))
        in rbind (read_subAuthorities (nat subAuthorityCount)) (\<lambda>subAuthorities.
             rreturn (ascii (''S-'' @ string_of_int revision @ ''-'' @ string_of_int authority
               @ (if subAuthorities \<noteq> []
                  then ''-'' @ join ''-'' (map string_of_int subAuthorities) else [])))))))))"

definition parseBXml :: "reader \<Rightarrow> (error + bxml_value) \<times> reader" where
  "parseBXml =
     rbind u32le (\<lambda>len.
       if len = 0
       then rreturn \<lparr>bxmlData = None, bxmlLength = None, isBXml = False, isEmpty = False,
                      baseOffset = None\<rparr>
       else rbind (bytesHere len) (\<lambda>bytes.
            rbind (skip len) (\<lambda>_.
            rreturn \<lparr>bxmlData = Some bytes, bxmlLength = Some len, isBXml = False,
                      isEmpty = False, baseOffset = None\<rparr>)))"

definition parseBXmlWithLength :: "int \<Rightarrow> reader \<Rightarrow> (error + bxml_value) \<times> reader" where
  "parseBXmlWithLength expectedLength r =
     (if expectedLength = 0
      then rreturn \<lparr>bxmlData = Some [], bxmlLength = Some 0, isBXml = False, isEmpty = True,
                     baseOffset = None\<rparr> r
      else (let startPos = tell r
            in rbind (\<lambda>r. (bytesAt r startPos expectedLength, r)) (\<lambda>bytes.
               rbind (seek (startPos + expectedLength)) (\<lambda>_.
               rreturn \<lparr>bxmlData = Some bytes, bxmlLength = Some expectedLength, isBXml = True,
                         isEmpty = False, baseOffset = Some startPos\<rparr>)) r))"

definition parseWStringArrayWithLength :: "int \<Rightarrow> reader \<Rightarrow> (error + jsstring list) \<times> reader" where
  "parseWStringArrayWithLength declaredLength =
     (if declaredLength = 0 then rreturn []
      else rbind (bytesHere declaredLength) (\<lambda>bytes.
           rbind (skip declaredLength) (\<lambda>_.
           rreturn (split_nul (strip_trailing_nuls (utf16le_decode bytes))))))"

fun read_wstrings :: "nat \<Rightarrow> reader \<Rightarrow> (error + jsstring list) \<times> reader" where
  "read_wstrings 0 r = (Inr [], r)"
| "read_wstrings (Suc n) r =
     (case parseWString r of
        (Inl e, r') \<Rightarrow> (Inl e, r')
      | (Inr v, r') \<Rightarrow>
          (case read_wstrings n r' of
             (Inl e, r'') \<Rightarrow> (Inl e, r'')
           | (Inr vs, r'') \<Rightarrow> (Inr (v # vs), r'')))"

definition parseWStringArray :: "reader \<Rightarrow> (error + jsstring list) \<times> reader" where
  "parseWStringArray = rbind u32le (\<lambda>count. read_wstrings (nat count))"

text \<open>A value together with \<open>tell() - startPos\<close> as its consumed bytes.\<close>

definition measured ::
  "int \<Rightarrow> (reader \<Rightarrow> (error + 'a) \<times> reader) \<Rightarrow> ('a \<Rightarrow> variant)
     \<Rightarrow> reader \<Rightarrow> (error + variant \<times> int) \<times> reader" where
  "measured startPos m mk = rbind m (\<lambda>v r'. rreturn (mk v, tell r' - startPos) r')"

definition fixed ::
  "(reader \<Rightarrow> (error + 'a) \<times> reader) \<Rightarrow> ('a \<Rightarrow> variant) \<Rightarrow> int
     \<Rightarrow> reader \<Rightarrow> (error + variant \<times> int) \<times> reader" where
  "fixed m mk n = rbind m (\<lambda>v. rreturn (mk v, n))"

text \<open>
  The \<open>switch\<close> of \<open>parse\<close>, inside its \<open>try\<close>. The fixed-width cases read the natural
  width of their type and report it as consumed, whatever \<open>expectedLength\<close> is.
\<close>

definition parse_switch ::
  "(int \<Rightarrow> int) \<Rightarrow> int \<Rightarrow> int option \<Rightarrow> reader \<Rightarrow> (error + variant \<times> int) \<times> reader" where
  "parse_switch tza ty expectedLength r =
     (let startPos = tell r in
      (if ty = 0x00 then
        (case expectedLength of
           None \<Rightarrow> rreturn (VNull, 0)
         | Some n \<Rightarrow>
             if n > 0 then rbind (seek (startPos + n)) (\<lambda>_. rreturn (VNull, n))
             else rreturn (VNull, n))
      else if ty = 0x01 then
        (case expectedLength of
           None \<Rightarrow> measured startPos parseWString VStr
         | Some n \<Rightarrow> measured startPos (parseWStringWithLength n) VStr)
      else if ty = 0x02 then
        (case expectedLength of
           None \<Rightarrow> measured startPos parseString id
         | Some n \<Rightarrow> measured startPos (parseStringWithLength n) id)
      else if ty = 0x04 then fixed u8 VNum 1
      else if ty = 0x03 then fixed i8 VNum 1
      else if ty = 0x06 then fixed u16le VNum 2
      else if ty = 0x05 then fixed i16le VNum 2
      else if ty = 0x08 then fixed u32le VNum 4
      else if ty = 0x07 then fixed i32le VNum 4
      else if ty = 0x0a then fixed u64le VBig 8
      else if ty = 0x09 then fixed i64le VBig 8
      else if ty = 0x0b then fixed f32le VFloat32 4
      else if ty = 0x0c then fixed f64le VFloat64 8
      else if ty = 0x0d then fixed u8 (\<lambda>boolValue. VBool (boolValue \<noteq> 0)) 1
      else if ty = 0x0e then
        (case expectedLength of
           None \<Rightarrow> measured startPos parseBinary VBytes
         | Some n \<Rightarrow>
             rbind (bytesHere n) (\<lambda>bytes.
             rbind (skip n) (\<lambda>_.
             rreturn (VBytes bytes, n))))
      else if ty = 0x0f then fixed parseGuid VStr 16
      else if ty = 0x10 then fixed u32le VNum 4
      else if ty = 0x11 then fixed parseFileTime VDate 8
      else if ty = 0x12 then fixed (parseSystemTime tza) VDate 16
      else if ty = 0x13 then measured startPos parseSid VStr
      else if ty = 0x14 then fixed u32le VNum 4
      else if ty = 0x15 then fixed u64le VBig 8
      else if ty = 0x21 then
        (case expectedLength of
           None \<Rightarrow> measured startPos parseBXml VObj
         | Some n \<Rightarrow> rbind (parseBXmlWithLength n) (\<lambda>v. rreturn (VObj v, n)))
      else if ty = 0x81 then
        (case expectedLength of
           None \<Rightarrow> measured startPos parseWStringArray VArr
         | Some n \<Rightarrow> rbind (parseWStringArrayWithLength n) (\<lambda>v. rreturn (VArr v, n)))
      else
        (case expectedLength of
           None \<Rightarrow> rreturn (VNull, 0)
         | Some n \<Rightarrow>
             if n > 0
             then rbind (\<lambda>r. (bytesAt r startPos n, r)) (\<lambda>bytes.
                  rbind (seek (startPos + n)) (\<lambda>_.
                  rreturn (VBytes bytes, n)))
             else rreturn (VNull, 0))) r)"

text \<open>
  \<open>parse\<close>: the \<open>catch\<close> recovers by seeking to \<open>startPos + expectedLength\<close> when a length
  was given (that seek can throw in turn) and returns \<open>null\<close>.
\<close>

definition parse ::
  "(int \<Rightarrow> int) \<Rightarrow> int \<Rightarrow> int option \<Rightarrow> reader \<Rightarrow> (error + variant \<times> int) \<times> reader" where
  "parse tza ty expectedLength r =
     (let startPos = tell r in
      case parse_switch tza ty expectedLength r of
        (Inr res, r') \<Rightarrow> (Inr res, r')
      | (Inl e, r') \<Rightarrow>
          (case expectedLength of
             Some n \<Rightarrow>
               (case seek (startPos + n) r' of
                  (Inl e', r'') \<Rightarrow> (Inl e', r'')
                | (Inr _, r'') \<Rightarrow> (Inr (VNull, n), r''))
           | None \<Rightarrow> (Inr (VNull, 0), r')))"

text \<open>The natural width of the fixed-width variant types.\<close>

definition natural_width :: "int \<Rightarrow> int option" where
  "natural_width ty =
     (if ty \<in> {0x03, 0x04, 0x0d} then Some 1
      else if ty \<in> {0x05, 0x06} then Some 2
      else if ty \<in> {0x07, 0x08, 0x0b, 0x10, 0x14} then Some 4
      else if ty \<in> {0x09, 0x0a, 0x0c, 0x11, 0x15} then Some 8
      else if ty \<in> {0x0f, 0x12} then Some 16
      else None)"

definition systime_bytes :: "byte list" where
  "systime_bytes = [0xE8, 0x07, 1, 0, 1, 0, 15, 0, 10, 0, 30, 0, 45, 0, 123, 0]"

section \<open>BXML nodes\<close>

text \<open>
  One constructor per node class, holding the token byte as read (flags in the upper
  nibble) and the fields the class stores. \<open>node_length\<close> is the \<open>length\<close> getter.
\<close>

datatype node =
    StartOfStreamNode int int int
  | EndOfStreamNode int
  | OpenStartElementNode int int int int int "node list"
  | CloseStartElementNode int
  | CloseEmptyElementNode int
  | CloseElementNode int
  | ValueTextNode int int int variant
  | AttributeNode int int int "node list"
  | CDataSectionNode int int
  | ProcessingInstructionTargetNode int jsstring
  | ProcessingInstructionDataNode int jsstring
  | TemplateInstanceNode int int int int int bool int
  | NormalSubstitutionNode int int int
  | OptionalSubstitutionNode int int int
  | CharacterReferenceNode int int
  | EntityReferenceNode int int int
  | UnimplementedNode int

text \<open>
  Field order: \<open>OpenStartElementNode token size string_offset unknown0 tag_length children\<close>,
  \<open>ValueTextNode token value_type valueLength parsedValue\<close>,
  \<open>AttributeNode token string_offset name_string_length children\<close>,
  \<open>TemplateInstanceNode token unknown template_id template_offset data_length embedded startPos\<close>,
  \<open>NormalSubstitutionNode token substitution_id value_type\<close>,
  \<open>EntityReferenceNode token string_offset name_string_length\<close>.
\<close>

fun node_length :: "node \<Rightarrow> int" where
  "node_length (StartOfStreamNode t ub uw) = 1 + 1 + 2"
| "node_length (EndOfStreamNode t) = 1"
| "node_length (OpenStartElementNode t sz so u0 tag_length cs) = tag_length"
| "node_length (CloseStartElementNode t) = 1"
| "node_length (CloseEmptyElementNode t) = 1"
| "node_length (CloseElementNode t) = 1"
| "node_length (ValueTextNode t vt valueLength v) = 2 + valueLength"
| "node_length (AttributeNode t so nsl []) = 1 + 4 + nsl + 0"
| "node_length (AttributeNode t so nsl (c # cs)) = 1 + 4 + nsl + node_length c"
| "node_length (CDataSectionNode t string_length) = 3 + string_length"
| "node_length (ProcessingInstructionTargetNode t d) = 1 + 2 + int (length d) * 2"
| "node_length (ProcessingInstructionDataNode t d) = 1 + 2 + int (length d) * 2"
| "node_length (TemplateInstanceNode t u tid toff data_length emb sp) = (1 + 1 + 4 + 4) + data_length"
| "node_length (NormalSubstitutionNode t sid vt) = 4"
| "node_length (OptionalSubstitutionNode t sid vt) = 4"
| "node_length (CharacterReferenceNode t e) = 3"
| "node_length (EntityReferenceNode t so nsl) = 5 + nsl"
| "node_length (UnimplementedNode t) = 0"

fun node_token :: "node \<Rightarrow> int" where
  "node_token (StartOfStreamNode t ub uw) = t"
| "node_token (EndOfStreamNode t) = t"
| "node_token (OpenStartElementNode t sz so u0 tgl cs) = t"
| "node_token (CloseStartElementNode t) = t"
| "node_token (CloseEmptyElementNode t) = t"
| "node_token (CloseElementNode t) = t"
| "node_token (ValueTextNode t vt vl v) = t"
| "node_token (AttributeNode t so nsl cs) = t"
| "node_token (CDataSectionNode t sl) = t"
| "node_token (ProcessingInstructionTargetNode t d) = t"
| "node_token (ProcessingInstructionDataNode t d) = t"
| "node_token (TemplateInstanceNode t u tid toff dl emb sp) = t"
| "node_token (NormalSubstitutionNode t sid vt) = t"
| "node_token (OptionalSubstitutionNode t sid vt) = t"
| "node_token (CharacterReferenceNode t e) = t"
| "node_token (EntityReferenceNode t so nsl) = t"
| "node_token (UnimplementedNode t) = t"

text \<open>The tests on \<open>node.constructor.name\<close>.\<close>

definition is_TemplateInstanceNode :: "node \<Rightarrow> bool" where
  "is_TemplateInstanceNode n = (case n of TemplateInstanceNode t u tid toff dl emb sp \<Rightarrow> True | _ \<Rightarrow> False)"

definition is_EndOfStreamNode :: "node \<Rightarrow> bool" where
  "is_EndOfStreamNode n = (case n of EndOfStreamNode t \<Rightarrow> True | _ \<Rightarrow> False)"

definition is_UnimplementedNode :: "node \<Rightarrow> bool" where
  "is_UnimplementedNode n = (case n of UnimplementedNode t \<Rightarrow> True | _ \<Rightarrow> False)"

section \<open>ChunkHeader: the interning tables\<close>

text \<open>A \<open>NameStringNode\<close>; its \<open>length\<close> is \<open>8 + data.length * 2 + 2\<close>.\<close>

record name_string =
  next_string_offset :: int
  name_hash :: int
  ns_data :: jsstring

definition name_string_length :: "name_string \<Rightarrow> int" where
  "name_string_length sn = 8 + int (length (ns_data sn)) * 2 + 2"

record template_node =
  tn_offset :: int
  tn_nextOffset :: int
  tn_templateId :: int
  tn_guid :: "byte list"
  tn_dataLength :: int
  tn_children :: "node list"

text \<open>
  The chunk: the bytes and the position of its own reader \<open>this.r\<close> (the reader it
  shares with its records and their root nodes), its offset in the file, the string
  table (\<open>None\<close> while it is \<open>null\<close>) and the template cache.
\<close>

record chunk =
  file_bytes :: "byte list"
  r_position :: int
  chunk_offset :: int
  string_table :: "(int \<rightharpoonup> name_string) option"
  template_cache :: "int \<rightharpoonup> template_node"

definition chunk_reader :: "chunk \<Rightarrow> reader" where
  "chunk_reader ch = \<lparr>buffer = file_bytes ch, position = r_position ch\<rparr>"

text \<open>\<open>new BinaryReader(this.r.bytesAt(0, this.r.size))\<close>: a fresh reader at position 0.\<close>

definition cloned_reader :: "chunk \<Rightarrow> reader" where
  "cloned_reader ch = \<lparr>buffer = file_bytes ch, position = 0\<rparr>"

definition chunk_u32 :: "chunk \<Rightarrow> int \<Rightarrow> error + int" where
  "chunk_u32 ch rel = u32leAt (chunk_reader ch) (chunk_offset ch + rel)"

definition nextRecordOffset :: "chunk \<Rightarrow> error + int" where
  "nextRecordOffset ch = chunk_u32 ch 0x30"

text \<open>
  Computations that can throw, over a state that survives the exception, and that can
  run out of fuel (\<open>None\<close>).
\<close>

type_synonym ('a, 's) exn = "'s \<Rightarrow> ((error + 'a) \<times> 's) option"

definition xreturn :: "'a \<Rightarrow> ('a, 's) exn" where
  "xreturn v s = Some (Inr v, s)"

definition xthrow :: "error \<Rightarrow> ('a, 's) exn" where
  "xthrow e s = Some (Inl e, s)"

definition xbind :: "('a, 's) exn \<Rightarrow> ('a \<Rightarrow> ('b, 's) exn) \<Rightarrow> ('b, 's) exn" where
  "xbind m f s =
     (case m s of
        None \<Rightarrow> None
      | Some (Inl e, s') \<Rightarrow> Some (Inl e, s')
      | Some (Inr v, s') \<Rightarrow> f v s')"

definition xcatch :: "('a, 's) exn \<Rightarrow> (error \<Rightarrow> ('a, 's) exn) \<Rightarrow> ('a, 's) exn" where
  "xcatch m h s =
     (case m s of
        None \<Rightarrow> None
      | Some (Inl e, s') \<Rightarrow> h e s'
      | Some (Inr v, s') \<Rightarrow> Some (Inr v, s'))"

type_synonym 'a parser = "('a, reader \<times> chunk) exn"

definition liftR :: "(reader \<Rightarrow> (error + 'a) \<times> reader) \<Rightarrow> 'a parser" where
  "liftR m s = (case s of (r, ch) \<Rightarrow> (case m r of (res, r') \<Rightarrow> Some (res, (r', ch))))"

definition liftC :: "('a, chunk) exn \<Rightarrow> 'a parser" where
  "liftC m s =
     (case s of (r, ch) \<Rightarrow>
        (case m ch of None \<Rightarrow> None | Some (res, ch') \<Rightarrow> Some (res, (r, ch'))))"

definition get_tell :: "int parser" where
  "get_tell s = Some (Inr (tell (fst s)), s)"

definition get_rsize :: "int parser" where
  "get_rsize s = Some (Inr (rsize (fst s)), s)"

definition get_chunk_offset :: "int parser" where
  "get_chunk_offset s = Some (Inr (chunk_offset (snd s)), s)"

text \<open>\<open>BinaryReader.wstring\<close>: a \<open>u16\<close> count, then that many code units.\<close>

fun read_units :: "nat \<Rightarrow> reader \<Rightarrow> (error + jsstring) \<times> reader" where
  "read_units 0 r = (Inr [], r)"
| "read_units (Suc n) r =
     (case u16le r of
        (Inl e, r') \<Rightarrow> (Inl e, r')
      | (Inr c, r') \<Rightarrow>
          (case read_units n r' of
             (Inl e, r'') \<Rightarrow> (Inl e, r'')
           | (Inr cs, r'') \<Rightarrow> (Inr (nat c # cs), r'')))"

definition wstring :: "reader \<Rightarrow> (error + jsstring) \<times> reader" where
  "wstring = rbind u16le (\<lambda>len. read_units (nat len))"

definition NameStringNode_ctor :: "reader \<Rightarrow> (error + name_string) \<times> reader" where
  "NameStringNode_ctor =
     rbind u32le (\<lambda>next_offset.
     rbind u16le (\<lambda>hash.
     rbind wstring (\<lambda>data.
     rreturn \<lparr>next_string_offset = next_offset, name_hash = hash, ns_data = data\<rparr>)))"

text \<open>
  \<open>addString\<close> once the table exists: the string is parsed with a cloned reader seeked to
  \<open>this.offset + offset\<close> and stored under \<open>offset\<close>. The chunk's own reader is not used.
\<close>

definition addString_loaded :: "int \<Rightarrow> chunk \<Rightarrow> (error + name_string) \<times> chunk" where
  "addString_loaded offset ch =
     (case seek (chunk_offset ch + offset) (cloned_reader ch) of
        (Inl e, _) \<Rightarrow> (Inl e, ch)
      | (Inr _, c1) \<Rightarrow>
          (case NameStringNode_ctor c1 of
             (Inl e, _) \<Rightarrow> (Inl e, ch)
           | (Inr sn, _) \<Rightarrow>
               (case string_table ch of
                  None \<Rightarrow> (Inl TypeError, ch)
                | Some m \<Rightarrow> (Inr sn, ch\<lparr>string_table := Some (m(offset \<mapsto> sn))\<rparr>))))"

definition has_string :: "chunk \<Rightarrow> int \<Rightarrow> bool" where
  "has_string ch ofs = (case string_table ch of None \<Rightarrow> False | Some m \<Rightarrow> m ofs \<noteq> None)"

text \<open>The inner \<open>while\<close> of \<open>_loadStrings\<close>: one bucket's chain.\<close>

fun follow_chain :: "nat \<Rightarrow> int \<Rightarrow> (unit, chunk) exn" where
  "follow_chain 0 ofs ch = None"
| "follow_chain (Suc k) ofs ch =
     (if ofs > 0 then
        (case nextRecordOffset ch of
           Inl e \<Rightarrow> Some (Inl e, ch)
         | Inr nro \<Rightarrow>
             if ofs < nro then
               (if has_string ch ofs then Some (Inr (), ch)
                else (case addString_loaded ofs ch of
                        (Inl e, ch') \<Rightarrow> Some (Inl e, ch')
                      | (Inr sn, ch') \<Rightarrow>
                          (let ofs' = next_string_offset sn
                           in if ofs' = 0 \<or> has_string ch' ofs' then Some (Inr (), ch')
                              else follow_chain k ofs' ch')))
             else Some (Inr (), ch))
      else Some (Inr (), ch))"

text \<open>The \<open>for\<close> over the 64 bucket heads at \<open>0x80\<close>; \<open>n\<close> buckets remain from \<open>i\<close>.\<close>

fun load_buckets :: "nat \<Rightarrow> int \<Rightarrow> nat \<Rightarrow> (unit, chunk) exn" where
  "load_buckets k i 0 ch = Some (Inr (), ch)"
| "load_buckets k i (Suc n) ch =
     (case chunk_u32 ch (0x80 + i * 4) of
        Inl e \<Rightarrow> Some (Inl e, ch)
      | Inr ofs \<Rightarrow>
          (case follow_chain k ofs ch of
             None \<Rightarrow> None
           | Some (Inl e, ch') \<Rightarrow> Some (Inl e, ch')
           | Some (Inr _, ch') \<Rightarrow> load_buckets k (i + 1) n ch'))"

definition loadStrings :: "nat \<Rightarrow> (unit, chunk) exn" where
  "loadStrings k ch =
     (if string_table ch \<noteq> None then Some (Inr (), ch)
      else (let ch0 = ch\<lparr>string_table := Some Map.empty\<rparr>;
                ch1 = snd (addString_loaded 0 ch0)
            in load_buckets k 0 64 ch1))"

text \<open>\<open>strings()\<close>, as the \<open>name\<close> getters call it: loads the table when it is \<open>null\<close>.\<close>

definition strings :: "nat \<Rightarrow> (unit, chunk) exn" where
  "strings k = loadStrings k"

definition addString :: "nat \<Rightarrow> int \<Rightarrow> (name_string, chunk) exn" where
  "addString k offset = xbind (loadStrings k) (\<lambda>_ ch. Some (addString_loaded offset ch))"

section \<open>Node constructors\<close>

text \<open>
  Every constructor runs after the factory has consumed the token byte. The factory
  that a node uses for its children is the parameter \<open>f\<close>; its argument is the
  \<open>__embedded\<close> marker of the parent handed to \<open>fromStream\<close>. \<open>k\<close> is the fuel of the
  loops. Template literals passed to the logger are evaluated before the call, so a
  getter or a \<open>peek()\<close> inside one is part of the constructor.
\<close>

definition StartOfStreamNode_ctor :: "int \<Rightarrow> node parser" where
  "StartOfStreamNode_ctor token =
     xbind (liftR u8) (\<lambda>unknownByteAfterToken.
     xbind (liftR u16le) (\<lambda>unknownWordAfterUnknownByte.
     xreturn (StartOfStreamNode token unknownByteAfterToken unknownWordAfterUnknownByte)))"

definition ValueTextNode_ctor :: "(int \<Rightarrow> int) \<Rightarrow> int \<Rightarrow> node parser" where
  "ValueTextNode_ctor tza token =
     xbind (liftR u8) (\<lambda>value_type.
     xbind (xcatch (liftR (parse tza value_type None)) (\<lambda>e. xreturn (VNull, 0))) (\<lambda>res.
     xreturn (ValueTextNode token value_type (snd res) (fst res))))"

definition CDataSectionNode_ctor :: "int \<Rightarrow> node parser" where
  "CDataSectionNode_ctor token =
     xbind (liftR u16le) (\<lambda>string_length. xreturn (CDataSectionNode token string_length))"

definition CharacterReferenceNode_ctor :: "int \<Rightarrow> node parser" where
  "CharacterReferenceNode_ctor token =
     xbind (liftR u16le) (\<lambda>entity. xreturn (CharacterReferenceNode token entity))"

definition EntityReferenceNode_ctor :: "int \<Rightarrow> node parser" where
  "EntityReferenceNode_ctor token =
     xbind (liftR u32le) (\<lambda>string_offset. xreturn (EntityReferenceNode token string_offset 0))"

definition ProcessingInstructionTargetNode_ctor :: "int \<Rightarrow> node parser" where
  "ProcessingInstructionTargetNode_ctor token =
     xbind (liftR wstring) (\<lambda>d. xreturn (ProcessingInstructionTargetNode token d))"

definition ProcessingInstructionDataNode_ctor :: "int \<Rightarrow> node parser" where
  "ProcessingInstructionDataNode_ctor token =
     xbind (liftR wstring) (\<lambda>d. xreturn (ProcessingInstructionDataNode token d))"

definition NormalSubstitutionNode_ctor :: "int \<Rightarrow> node parser" where
  "NormalSubstitutionNode_ctor token =
     xbind (liftR u16le) (\<lambda>substitution_id.
     xbind (liftR u8) (\<lambda>value_type.
     xreturn (NormalSubstitutionNode token substitution_id value_type)))"

definition OptionalSubstitutionNode_ctor :: "int \<Rightarrow> node parser" where
  "OptionalSubstitutionNode_ctor token =
     xbind (liftR u16le) (\<lambda>substitution_id.
     xbind (liftR u8) (\<lambda>value_type.
     xreturn (OptionalSubstitutionNode token substitution_id value_type)))"

text \<open>The inline name of an attribute, read from the stream itself.\<close>

definition attribute_inline_name :: "nat \<Rightarrow> int \<Rightarrow> int parser" where
  "attribute_inline_name k string_offset =
     xbind (liftR u32le) (\<lambda>nextOffset.
     xbind (liftR u16le) (\<lambda>hash.
     xbind (liftR u16le) (\<lambda>stringLength.
     xbind (if stringLength > 0
            then xbind (liftR (readBuffer (stringLength * 2))) (\<lambda>stringData.
                 xbind (liftR u16le) (\<lambda>terminator. xreturn ()))
            else xreturn ()) (\<lambda>_.
     xbind (xcatch (xbind (liftC (addString k string_offset)) (\<lambda>sn. xreturn ()))
                   (\<lambda>e. xreturn ())) (\<lambda>_.
     xreturn (4 + 2 + 2 + (stringLength * 2) + 2))))))"

definition AttributeNode_ctor :: "nat \<Rightarrow> (bool \<Rightarrow> node parser) \<Rightarrow> int \<Rightarrow> node parser" where
  "AttributeNode_ctor k f token =
     xbind get_tell (\<lambda>pos.
     xbind (liftR u32le) (\<lambda>string_offset.
     xbind get_chunk_offset (\<lambda>coff.
     xbind (if string_offset > (pos - 1) - coff then attribute_inline_name k string_offset
            else xreturn 0) (\<lambda>name_string_length.
     xbind (liftR (seek ((pos - 1) + (5 + name_string_length)))) (\<lambda>_.
     xbind (liftR peek) (\<lambda>nextToken.
     xbind get_tell (\<lambda>p.
     xbind get_rsize (\<lambda>sz.
     xbind (if p < sz
            then xcatch (xbind (f False) (\<lambda>childNode. xreturn [childNode])) (\<lambda>e. xreturn [])
            else xreturn []) (\<lambda>children.
     xreturn (AttributeNode token string_offset name_string_length children))))))))))"

text \<open>The attribute loop of \<open>read_internal_structure\<close>.\<close>

fun attr_loop :: "nat \<Rightarrow> (bool \<Rightarrow> node parser) \<Rightarrow> int \<Rightarrow> node list \<Rightarrow> (node list) parser" where
  "attr_loop 0 f endp acc s = None"
| "attr_loop (Suc k) f endp acc s =
     (if tell (fst s) < endp then
        (if tell (fst s) \<ge> rsize (fst s) then Some (Inr acc, s)
         else (case peek (fst s) of
                 (Inl e, _) \<Rightarrow> Some (Inl e, s)
               | (Inr token, _) \<Rightarrow>
                   if token AND 0x0F = 0x06 then
                     (case f False s of
                        None \<Rightarrow> None
                      | Some (Inl e, s') \<Rightarrow> Some (Inr acc, s')
                      | Some (Inr attribute, s') \<Rightarrow> attr_loop k f endp (acc @ [attribute]) s')
                   else Some (Inr acc, s)))
      else Some (Inr acc, s))"

text \<open>The child loop between \<open>CloseStartElement\<close> and \<open>CloseElement\<close>.\<close>

fun child_loop :: "nat \<Rightarrow> (bool \<Rightarrow> node parser) \<Rightarrow> int \<Rightarrow> node list \<Rightarrow> (node list) parser" where
  "child_loop 0 f endp acc s = None"
| "child_loop (Suc k) f endp acc s =
     (if tell (fst s) < endp then
        (if tell (fst s) \<ge> rsize (fst s) then Some (Inr acc, s)
         else (case peek (fst s) of
                 (Inl e, _) \<Rightarrow> Some (Inr acc, s)
               | (Inr token, _) \<Rightarrow>
                   if token = 0x04 then Some (Inr acc, s)
                   else (case f False s of
                           None \<Rightarrow> None
                         | Some (Inl e, s') \<Rightarrow> Some (Inr acc, s')
                         | Some (Inr childNode, s') \<Rightarrow>
                             if node_token childNode = 0x00 \<or> is_UnimplementedNode childNode
                             then Some (Inr (acc @ [childNode]), s')
                             else child_loop k f endp (acc @ [childNode]) s')))
      else Some (Inr acc, s))"

definition close_element :: "(bool \<Rightarrow> node parser) \<Rightarrow> int \<Rightarrow> node list \<Rightarrow> (node list) parser" where
  "close_element f endp children =
     xbind get_tell (\<lambda>p.
     xbind get_rsize (\<lambda>sz.
     if p < endp \<and> p < sz
     then xcatch (xbind (liftR peek) (\<lambda>token.
                    if token = 0x04
                    then xbind (f False) (\<lambda>closeElementNode. xreturn (children @ [closeElementNode]))
                    else xreturn children))
                 (\<lambda>e. xreturn children)
     else xreturn children))"

text \<open>
  The content of an element, from the position the reader was seeked to: attributes,
  then \<open>CloseStartElement\<close>, children and \<open>CloseElement\<close>, or \<open>CloseEmptyElement\<close>.
\<close>

definition parse_content :: "nat \<Rightarrow> (bool \<Rightarrow> node parser) \<Rightarrow> int \<Rightarrow> (node list) parser" where
  "parse_content k f elementContentEndPosition =
     xbind (attr_loop k f elementContentEndPosition []) (\<lambda>attrs.
     xbind get_tell (\<lambda>p.
     if p < elementContentEndPosition
     then xcatch
            (xbind (liftR peek) (\<lambda>nextToken.
               if nextToken = 0x02 then
                 xbind (f False) (\<lambda>closeStartNode.
                 xbind (child_loop k f elementContentEndPosition (attrs @ [closeStartNode]))
                   (\<lambda>children.
                 close_element f elementContentEndPosition children))
               else if nextToken = 0x03 then
                 xbind (f False) (\<lambda>closeEmptyNode. xreturn (attrs @ [closeEmptyNode]))
               else xreturn attrs))
            (\<lambda>e. xreturn attrs)
     else xreturn attrs))"

text \<open>
  \<open>read_internal_structure\<close>: its first log line evaluates \<open>this.name\<close>, which loads the
  string table; then the reader is moved to the start of the content.
\<close>

definition read_internal_structure ::
  "nat \<Rightarrow> (bool \<Rightarrow> node parser) \<Rightarrow> int \<Rightarrow> int \<Rightarrow> int \<Rightarrow> (node list) parser" where
  "read_internal_structure k f tagLength nodeStart elementSize =
     (let startOfContentParsing = nodeStart + tagLength;
          elementContentEndPosition = startOfContentParsing + elementSize
      in xbind (liftC (strings k)) (\<lambda>_.
         xbind (liftR (seek startOfContentParsing)) (\<lambda>_.
         parse_content k f elementContentEndPosition)))"

text \<open>\<open>flags()\<close> is \<open>token >> 4\<close>.\<close>

definition flags :: "int \<Rightarrow> int" where
  "flags token = drop_bit 4 token"

definition OpenStartElementNode_ctor :: "nat \<Rightarrow> (bool \<Rightarrow> node parser) \<Rightarrow> int \<Rightarrow> node parser" where
  "OpenStartElementNode_ctor k f token =
     xbind get_tell (\<lambda>pos.
     xbind (liftR u16le) (\<lambda>unknown0.
     xbind (liftR u32le) (\<lambda>size.
     xbind (liftR u32le) (\<lambda>string_offset.
     xbind get_chunk_offset (\<lambda>coff.
     xbind (if string_offset > (pos - 1) - coff
            then xbind (liftC (addString k string_offset)) (\<lambda>stringNode.
                   xreturn (11 + (if flags token AND 0x04 \<noteq> 0 then 4 else 0)
                              + name_string_length stringNode))
            else xreturn (11 + (if flags token AND 0x04 \<noteq> 0 then 4 else 0))) (\<lambda>tag_length.
     xbind (read_internal_structure k f tag_length (pos - 1) size) (\<lambda>children.
     xreturn (OpenStartElementNode token size string_offset unknown0 tag_length children))))))))"

section \<open>TemplateNode and the template cache\<close>

fun template_children_loop ::
  "nat \<Rightarrow> (bool \<Rightarrow> node parser) \<Rightarrow> int \<Rightarrow> node list \<Rightarrow> (node list) parser" where
  "template_children_loop 0 f dataEnd acc s = None"
| "template_children_loop (Suc k) f dataEnd acc s =
     (if tell (fst s) < dataEnd then
        (case peek (fst s) of
           (Inl e, _) \<Rightarrow> Some (Inl e, s)
         | (Inr token, _) \<Rightarrow>
             if token = 0x00 then
               (case f False s of
                  None \<Rightarrow> None
                | Some (Inl e, s') \<Rightarrow> Some (Inr acc, s')
                | Some (Inr endNode, s') \<Rightarrow> Some (Inr (acc @ [endNode]), s'))
             else
               (case f False s of
                  None \<Rightarrow> None
                | Some (Inl e, s') \<Rightarrow> Some (Inr acc, s')
                | Some (Inr childNode, s') \<Rightarrow>
                    template_children_loop k f dataEnd (acc @ [childNode]) s'))
      else Some (Inr acc, s))"

definition parseChildren ::
  "nat \<Rightarrow> (bool \<Rightarrow> node parser) \<Rightarrow> int \<Rightarrow> int \<Rightarrow> (node list) parser" where
  "parseChildren k f absoluteOffset dataLength =
     (if dataLength = 0 then xreturn []
      else xbind (liftR (seek (absoluteOffset + 24))) (\<lambda>_.
             template_children_loop k f (absoluteOffset + 24 + dataLength) []))"

text \<open>The \<open>TemplateNode\<close> constructor: it seeks and reads the reader it is given.\<close>

definition TemplateNode_ctor ::
  "nat \<Rightarrow> (bool \<Rightarrow> node parser) \<Rightarrow> int \<Rightarrow> template_node parser" where
  "TemplateNode_ctor k f offset =
     xbind get_chunk_offset (\<lambda>coff.
     xbind (liftR (seek (coff + offset))) (\<lambda>_.
     xbind get_rsize (\<lambda>sz.
     xbind (liftR (readBuffer (min 32 (sz - (coff + offset))))) (\<lambda>headerBytes.
     xbind (liftR (seek (coff + offset))) (\<lambda>_.
     xbind (liftR u32le) (\<lambda>nextOffset.
     xbind get_tell (\<lambda>templateIdPos.
     xbind (liftR u32le) (\<lambda>templateId.
     xbind (liftR (seek templateIdPos)) (\<lambda>_.
     xbind (liftR (readBuffer 16)) (\<lambda>guid.
     xbind (liftR u32le) (\<lambda>dataLength.
     xbind (parseChildren k f (coff + offset) dataLength) (\<lambda>children.
     xreturn \<lparr>tn_offset = offset, tn_nextOffset = nextOffset, tn_templateId = templateId,
               tn_guid = guid, tn_dataLength = dataLength, tn_children = children\<rparr>))))))))))))"

text \<open>
  \<open>addTemplate\<close> parses with a cloned reader; \<open>getTemplate\<close> hands the chunk's own reader
  \<open>this.r\<close> to the constructor and swallows its exception.
\<close>

definition addTemplate :: "nat \<Rightarrow> (bool \<Rightarrow> node parser) \<Rightarrow> int \<Rightarrow> (template_node, chunk) exn" where
  "addTemplate k f offset ch =
     (case template_cache ch offset of
        Some t \<Rightarrow> Some (Inr t, ch)
      | None \<Rightarrow>
          (case TemplateNode_ctor k f offset (cloned_reader ch, ch) of
             None \<Rightarrow> None
           | Some (Inl e, (cloned, ch')) \<Rightarrow> Some (Inl e, ch')
           | Some (Inr t, (cloned, ch')) \<Rightarrow>
               Some (Inr t, ch'\<lparr>template_cache := (template_cache ch')(offset \<mapsto> t)\<rparr>)))"

definition getTemplate ::
  "nat \<Rightarrow> (bool \<Rightarrow> node parser) \<Rightarrow> int \<Rightarrow> chunk \<Rightarrow> (template_node option \<times> chunk) option" where
  "getTemplate k f offset ch =
     (case template_cache ch offset of
        Some t \<Rightarrow> Some (Some t, ch)
      | None \<Rightarrow>
          (case TemplateNode_ctor k f offset (chunk_reader ch, ch) of
             None \<Rightarrow> None
           | Some (Inl e, (r', ch')) \<Rightarrow> Some (None, ch'\<lparr>r_position := position r'\<rparr>)
           | Some (Inr t, (r', ch')) \<Rightarrow>
               Some (Some t, ch'\<lparr>r_position := position r',
                                   template_cache := (template_cache ch')(offset \<mapsto> t)\<rparr>)))"

definition TemplateInstanceNode_ctor ::
  "nat \<Rightarrow> (bool \<Rightarrow> node parser) \<Rightarrow> bool \<Rightarrow> int \<Rightarrow> node parser" where
  "TemplateInstanceNode_ctor k f embedded token =
     xbind get_tell (\<lambda>pos.
     xbind (liftR u8) (\<lambda>unknownByteAfterToken.
     xbind (liftR u32le) (\<lambda>template_id.
     xbind (liftR u32le) (\<lambda>template_offset.
     xbind get_chunk_offset (\<lambda>coff.
     xbind (if template_offset > (pos - 1) - coff
            then xcatch (xbind (liftC (addTemplate k f template_offset)) (\<lambda>newTemplate.
                           xreturn (24 + tn_dataLength newTemplate)))
                        (\<lambda>e. xreturn 0)
            else xreturn 0) (\<lambda>data_length.
     xbind (if \<not> embedded
            then xbind get_tell (\<lambda>p.
                   if p \<noteq> (pos - 1) + ((1 + 1 + 4 + 4) + data_length)
                   then liftR (seek ((pos - 1) + ((1 + 1 + 4 + 4) + data_length)))
                   else xreturn ())
            else xreturn ()) (\<lambda>_.
     xreturn (TemplateInstanceNode token unknownByteAfterToken template_id template_offset
                data_length embedded (pos - 1)))))))))"

section \<open>NodeFactory\<close>

text \<open>
  \<open>fromStream\<close> reads the token byte and dispatches on its lower nibble. The masked
  token is at most 15, so the \<open>FragmentHeader\<close> case (\<open>0x10\<close>) and the default case are
  never taken.
\<close>

fun fromStream :: "(int \<Rightarrow> int) \<Rightarrow> nat \<Rightarrow> bool \<Rightarrow> node parser" where
  "fromStream tza 0 embedded s = None"
| "fromStream tza (Suc n) embedded s =
     xbind (liftR u8) (\<lambda>token.
       if token AND 0x0F = 0x0f then StartOfStreamNode_ctor token
       else if token AND 0x0F = 0x00 then xreturn (EndOfStreamNode token)
       else if token AND 0x0F = 0x01 then OpenStartElementNode_ctor n (fromStream tza n) token
       else if token AND 0x0F = 0x02 then xreturn (CloseStartElementNode token)
       else if token AND 0x0F = 0x03 then xreturn (CloseEmptyElementNode token)
       else if token AND 0x0F = 0x04 then xreturn (CloseElementNode token)
       else if token AND 0x0F = 0x05 then ValueTextNode_ctor tza token
       else if token AND 0x0F = 0x06 then AttributeNode_ctor n (fromStream tza n) token
       else if token AND 0x0F = 0x07 then CDataSectionNode_ctor token
       else if token AND 0x0F = 0x08 then CharacterReferenceNode_ctor token
       else if token AND 0x0F = 0x09 then EntityReferenceNode_ctor token
       else if token AND 0x0F = 0x0a then ProcessingInstructionTargetNode_ctor token
       else if token AND 0x0F = 0x0b then ProcessingInstructionDataNode_ctor token
       else if token AND 0x0F = 0x0c
         then TemplateInstanceNode_ctor n (fromStream tza n) embedded token
       else if token AND 0x0F = 0x0d then NormalSubstitutionNode_ctor token
       else if token AND 0x0F = 0x0e then OptionalSubstitutionNode_ctor token
       else xreturn (UnimplementedNode token)) s"

section \<open>RootNode: children, then substitutions\<close>

record decl =
  dsize :: int
  dtype :: int

text \<open>The declaration loop of Phase 2; it stops when fewer than 4 bytes remain.\<close>

fun read_declarations :: "nat \<Rightarrow> reader \<Rightarrow> (error + decl list) \<times> reader" where
  "read_declarations 0 r = (Inr [], r)"
| "read_declarations (Suc n) r =
     (if tell r + 4 \<le> rsize r then
        (case rbind u16le (\<lambda>size. rbind u8 (\<lambda>type. rbind u8 (\<lambda>reserved.
                rreturn \<lparr>dsize = size, dtype = type\<rparr>))) r of
           (Inl e, r') \<Rightarrow> (Inl e, r')
         | (Inr d, r') \<Rightarrow>
             (case read_declarations n r' of
                (Inl e, r'') \<Rightarrow> (Inl e, r'')
              | (Inr ds, r'') \<Rightarrow> (Inr (d # ds), r'')))
      else (Inr [], r))"

text \<open>
  The value loop of Phase 2: one substitution-mode decode per declaration, until a
  declared size no longer fits. The second component sums the consumed bytes.
\<close>

fun read_values ::
  "(int \<Rightarrow> int) \<Rightarrow> decl list \<Rightarrow> reader \<Rightarrow> (error + variant list \<times> int) \<times> reader" where
  "read_values tza [] r = (Inr ([], 0), r)"
| "read_values tza (d # ds) r =
     (if tell r + dsize d \<le> rsize r then
        (case parse tza (dtype d) (Some (dsize d)) r of
           (Inl e, r') \<Rightarrow> (Inl e, r')
         | (Inr res, r') \<Rightarrow>
             (case read_values tza ds r' of
                (Inl e, r'') \<Rightarrow> (Inl e, r'')
              | (Inr rest, r'') \<Rightarrow> (Inr (fst res # fst rest, snd res + snd rest), r'')))
      else (Inr ([], 0), r))"

text \<open>
  The substitution count: both byte orders are read, and the big-endian value is used
  when it is between 1 and 1023.
\<close>

definition read_substitutionCount :: "reader \<Rightarrow> (error + int) \<times> reader" where
  "read_substitutionCount r =
     (let subCountPos = tell r
      in rbind u32le (\<lambda>substitutionCountLE.
         rbind (seek subCountPos) (\<lambda>_.
         rbind u32be (\<lambda>substitutionCountBE.
         rbind (seek (subCountPos + 4)) (\<lambda>_.
         rreturn (if substitutionCountBE > 0 \<and> substitutionCountBE < 1024
                  then substitutionCountBE else substitutionCountLE))))) r)"

definition rootPhase2 ::
  "(int \<Rightarrow> int) \<Rightarrow> int \<Rightarrow> int \<Rightarrow> reader \<Rightarrow> (error + variant list \<times> int) \<times> reader" where
  "rootPhase2 tza rootNodeStartOffset parsedBxmlChildrenLength =
     rbind (seek (rootNodeStartOffset + parsedBxmlChildrenLength - 1)) (\<lambda>_ r1.
       if tell r1 + 4 \<le> rsize r1 then
         rbind read_substitutionCount (\<lambda>substitutionCount.
           if substitutionCount > 0 \<and> substitutionCount < 1024 then
             rbind (read_declarations (nat substitutionCount)) (\<lambda>subDeclarations.
             rbind (read_values tza subDeclarations) (\<lambda>vals.
             rreturn (fst vals, 4 + 4 * int (length subDeclarations) + snd vals)))
           else rreturn ([], 0)) r1
       else rreturn ([], 0) r1)"

record root_node =
  rn_children :: "node list"
  rn_substitutions :: "variant list"
  rn_parsedBxmlChildrenLength :: int
  rn_substitutionsBlockLength :: int
  rn_templateInstance :: "node option"

text \<open>
  Phase 1. The accumulator holds \<open>children\<close>, \<open>_parsedBxmlChildrenLength\<close> and
  \<open>_templateInstance\<close>. An \<open>EndOfStream\<close> token (byte \<open>0x00\<close>) ends the loop unparsed.
\<close>

fun phase1_loop ::
  "nat \<Rightarrow> (bool \<Rightarrow> node parser) \<Rightarrow> int \<Rightarrow> node list \<times> int \<times> node option
     \<Rightarrow> (node list \<times> int \<times> node option) parser" where
  "phase1_loop 0 f endPosition acc s = None"
| "phase1_loop (Suc k) f endPosition acc s =
     (if tell (fst s) < endPosition then
        (if tell (fst s) \<ge> rsize (fst s) then Some (Inr acc, s)
         else (case peek (fst s) of
                 (Inl e, _) \<Rightarrow> Some (Inl e, s)
               | (Inr currentToken, _) \<Rightarrow>
                   if currentToken = 0x00 then Some (Inr acc, s)
                   else (case f False s of
                           None \<Rightarrow> None
                         | Some (Inl e, s') \<Rightarrow> Some (Inr acc, s')
                         | Some (Inr node, s') \<Rightarrow>
                             (let acc' = (fst acc @ [node],
                                          fst (snd acc) + node_length node,
                                          if is_TemplateInstanceNode node then Some node
                                          else snd (snd acc))
                              in if is_UnimplementedNode node then Some (Inr acc', s')
                                 else phase1_loop k f endPosition acc' s'))))
      else Some (Inr acc, s))"

definition RootNode_ctor ::
  "(int \<Rightarrow> int) \<Rightarrow> nat \<Rightarrow> (bool \<Rightarrow> node parser) \<Rightarrow> int \<Rightarrow> root_node parser" where
  "RootNode_ctor tza k f recordOffset =
     (let recordDataOffset = recordOffset + 0x18
      in xbind (liftR (seek recordDataOffset)) (\<lambda>_.
         xbind (liftR (\<lambda>r. (u32leAt r (recordOffset + 0x4), r))) (\<lambda>recordSize.
         xbind (phase1_loop k f (recordDataOffset + (recordSize - 0x18)) ([], 0, None)) (\<lambda>acc.
         xbind (liftR (rootPhase2 tza recordDataOffset (fst (snd acc)))) (\<lambda>subs.
         xreturn \<lparr>rn_children = fst acc, rn_substitutions = fst subs,
                   rn_parsedBxmlChildrenLength = fst (snd acc),
                   rn_substitutionsBlockLength = snd subs,
                   rn_templateInstance = snd (snd acc)\<rparr>)))))"

text \<open>
  \<open>Record.root()\<close>: the root node is built on the reader the record shares with its
  chunk, so the position the constructor leaves is the position of \<open>chunk.r\<close>.
\<close>

definition record_root :: "(int \<Rightarrow> int) \<Rightarrow> nat \<Rightarrow> int \<Rightarrow> (root_node, chunk) exn" where
  "record_root tza k recordOffset ch =
     (case RootNode_ctor tza k (fromStream tza k) recordOffset (chunk_reader ch, ch) of
        None \<Rightarrow> None
      | Some (res, (r', ch')) \<Rightarrow> Some (res, ch'\<lparr>r_position := position r'\<rparr>))"

section \<open>Embedded BXML\<close>

text \<open>The loops of the embedded substitution header have no bounds guard.\<close>

fun read_declarations_embedded :: "nat \<Rightarrow> reader \<Rightarrow> (error + decl list) \<times> reader" where
  "read_declarations_embedded 0 r = (Inr [], r)"
| "read_declarations_embedded (Suc n) r =
     (case rbind u16le (\<lambda>size. rbind u8 (\<lambda>type. rbind u8 (\<lambda>reserved.
             rreturn \<lparr>dsize = size, dtype = type\<rparr>))) r of
        (Inl e, r') \<Rightarrow> (Inl e, r')
      | (Inr d, r') \<Rightarrow>
          (case read_declarations_embedded n r' of
             (Inl e, r'') \<Rightarrow> (Inl e, r'')
           | (Inr ds, r'') \<Rightarrow> (Inr (d # ds), r'')))"

fun read_values_embedded ::
  "(int \<Rightarrow> int) \<Rightarrow> decl list \<Rightarrow> reader \<Rightarrow> (error + variant list) \<times> reader" where
  "read_values_embedded tza [] r = (Inr [], r)"
| "read_values_embedded tza (d # ds) r =
     (case parse tza (dtype d) (Some (dsize d)) r of
        (Inl e, r') \<Rightarrow> (Inl e, r')
      | (Inr parsed, r') \<Rightarrow>
          (case read_values_embedded tza ds r' of
             (Inl e, r'') \<Rightarrow> (Inl e, r'')
           | (Inr vals, r'') \<Rightarrow> (Inr (fst parsed # vals), r'')))"

text \<open>
  The substitutions of an embedded fragment whose header is at \<open>headerOffset\<close>: the count
  is a little-endian \<open>u32\<close>; any exception leaves the substitutions empty.
\<close>

definition embedded_substitutions ::
  "(int \<Rightarrow> int) \<Rightarrow> int \<Rightarrow> reader \<Rightarrow> variant list \<times> reader" where
  "embedded_substitutions tza headerOffset r =
     (case rbind (seek headerOffset) (\<lambda>_.
           rbind u32le (\<lambda>count.
           rbind (read_declarations_embedded (nat count)) (\<lambda>decls.
           read_values_embedded tza decls))) r of
        (Inl e, r') \<Rightarrow> ([], r')
      | (Inr vals, r') \<Rightarrow> (vals, r'))"

text \<open>
  The token loop of \<open>parseEmbeddedRootNodeAtOffset\<close>. The accumulator holds \<open>nodes\<close>,
  \<open>declared\<close> and \<open>templateInstance\<close>.
\<close>

fun embedded_loop ::
  "nat \<Rightarrow> (bool \<Rightarrow> node parser) \<Rightarrow> int \<Rightarrow> node list \<times> int \<times> node option
     \<Rightarrow> (node list \<times> int \<times> node option) parser" where
  "embedded_loop 0 f limit acc s = None"
| "embedded_loop (Suc k) f limit acc s =
     (if tell (fst s) < limit then
        (case f True s of
           None \<Rightarrow> None
         | Some (Inl e, s') \<Rightarrow> Some (Inr acc, s')
         | Some (Inr node, s') \<Rightarrow>
             (let acc' = (fst acc @ [node],
                          (if \<not> is_EndOfStreamNode node then fst (snd acc) + node_length node
                           else fst (snd acc)),
                          if is_TemplateInstanceNode node then Some node else snd (snd acc))
              in if is_TemplateInstanceNode node then Some (Inr acc', s')
                 else if is_EndOfStreamNode node then Some (Inr acc', s')
                 else if tell (fst s') \<le> tell (fst s) then Some (Inr acc', s')
                 else embedded_loop k f limit acc' s'))
      else Some (Inr acc, s))"

definition parseEmbeddedRootNodeAtOffset ::
  "(int \<Rightarrow> int) \<Rightarrow> nat \<Rightarrow> (bool \<Rightarrow> node parser) \<Rightarrow> int \<Rightarrow> int
     \<Rightarrow> (node option \<times> variant list) parser" where
  "parseEmbeddedRootNodeAtOffset tza k f base_offset len =
     xbind (liftR (seek base_offset)) (\<lambda>_.
     xbind (embedded_loop k f (base_offset + len + 64) ([], 0, None)) (\<lambda>acc.
     xbind (liftR (\<lambda>r. (case embedded_substitutions tza (base_offset + fst (snd acc)) r of
                          (substitutions, r') \<Rightarrow> (Inr substitutions, r')))) (\<lambda>substitutions.
     xreturn (snd (snd acc), substitutions))))"

section \<open>Auxiliary notions for the statements\<close>

text \<open>The parts of a chunk that interning must leave alone.\<close>

definition same_frame :: "chunk \<Rightarrow> chunk \<Rightarrow> bool" where
  "same_frame ch ch' \<longleftrightarrow>
     file_bytes ch' = file_bytes ch \<and> chunk_offset ch' = chunk_offset ch
     \<and> r_position ch' = r_position ch"




text \<open>
  Invariance of the bytes and of the chunk's frame: \<open>rpres\<close> for reader actions (the buffer
  is never replaced), \<open>cpres\<close> for chunk operations and \<open>ppres\<close> for parsers.
\<close>

definition rpres :: "(reader \<Rightarrow> (error + 'a) \<times> reader) \<Rightarrow> bool" where
  "rpres m \<longleftrightarrow> (\<forall>r. buffer (snd (m r)) = buffer r)"

definition st_rel :: "reader \<times> chunk \<Rightarrow> reader \<times> chunk \<Rightarrow> bool" where
  "st_rel s s' \<longleftrightarrow> buffer (fst s') = buffer (fst s) \<and> same_frame (snd s) (snd s')"

definition ppres :: "'a parser \<Rightarrow> bool" where
  "ppres m \<longleftrightarrow> (\<forall>s res s'. m s = Some (res, s') \<longrightarrow> st_rel s s')"

definition cpres :: "('a, chunk) exn \<Rightarrow> bool" where
  "cpres m \<longleftrightarrow> (\<forall>ch res ch'. m ch = Some (res, ch') \<longrightarrow> same_frame ch ch')"

text \<open>The sum of the declared lengths of the nodes other than \<open>EndOfStream\<close>.\<close>

definition declared_sum :: "node list \<Rightarrow> int" where
  "declared_sum ns = sum_list (map node_length (filter (\<lambda>n. \<not> is_EndOfStreamNode n) ns))"

text \<open>The \<open>i\<close>-th declaration of a table at \<open>p\<close>: \<open>size u16\<close>, \<open>type u8\<close>, \<open>reserved u8\<close>.\<close>

definition decl_at :: "reader \<Rightarrow> int \<Rightarrow> nat \<Rightarrow> decl" where
  "decl_at r p i =
     \<lparr>dsize = byteAt r (p + 4 * int i) + 256 * byteAt r (p + 4 * int i + 1),
      dtype = byteAt r (p + 4 * int i + 2)\<rparr>"

text \<open>
  A record whose root holds \<open>StartOfStream\<close> and a \<open>TemplateInstance\<close> of a template that
  is not resident, followed by the count 2, two declarations (\<open>UnsignedByte\<close>,
  \<open>UnsignedWord\<close>) and their values.
\<close>

definition root_bytes :: "byte list" where
  "root_bytes = [0x2a, 0x2a, 0, 0, 0x39, 0, 0, 0, 1, 0, 0, 0, 0, 0, 0, 0,
                 0, 0, 0, 0, 0, 0, 0, 0,
                 0x0F, 1, 1, 0,
                 0x0C, 1, 0x10, 0, 0, 0, 0, 0, 0, 0,
                 2, 0, 0, 0,
                 1, 0, 4, 0,
                 2, 0, 6, 0,
                 7,
                 0x39, 0x30,
                 0x39, 0, 0, 0]"

text \<open>
  The same record with the bytes \<open>00 00 01\<close> after the \<open>TemplateInstance\<close>: the four bytes
  at the substitution offset are \<open>00 00 00 01\<close>.
\<close>

definition be_count_bytes :: "byte list" where
  "be_count_bytes = [0x2a, 0x2a, 0, 0, 0x33, 0, 0, 0, 1, 0, 0, 0, 0, 0, 0, 0,
                     0, 0, 0, 0, 0, 0, 0, 0,
                     0x0F, 1, 1, 0,
                     0x0C, 1, 0x10, 0, 0, 0, 0, 0, 0, 0,
                     0, 0, 1,
                     2, 0, 6, 0,
                     0x39, 0x30,
                     0x33, 0, 0, 0]"

text \<open>A chunk at offset 0 of the file, with an empty string table and template cache.\<close>

definition chunk_of :: "byte list \<Rightarrow> chunk" where
  "chunk_of bs = \<lparr>file_bytes = bs, r_position = 0, chunk_offset = 0,
                   string_table = Some Map.empty, template_cache = Map.empty\<rparr>"

text \<open>
  A chunk at offset 0 of a 32-byte file: eight bytes of padding, then a template header
  at offset 8 (next offset 0, GUID \<open>10 00 ... 00\<close>, data length 0). The chunk's reader
  stands at position 3.
\<close>

definition template_chunk :: chunk where
  "template_chunk =
     \<lparr>file_bytes = [0, 0, 0, 0, 0, 0, 0, 0,
                     0, 0, 0, 0,
                     0x10, 0, 0, 0, 0, 0, 0, 0, 0, 0, 0, 0, 0, 0, 0, 0,
                     0, 0, 0, 0],
      r_position = 3, chunk_offset = 0,
      string_table = Some Map.empty, template_cache = Map.empty\<rparr>"



text \<open>
  An embedded fragment with a resident template: \<open>StartOfStream\<close>, a \<open>TemplateInstance\<close>
  whose template (header of 24 bytes, one byte of data, \<open>EndOfStream\<close>) follows it at
  offset 14, then the substitution header at offset 39 (one \<open>UnsignedWord\<close>) and its value.
\<close>

definition resident_bytes :: "byte list" where
  "resident_bytes = [0x0F, 1, 1, 0,
                     0x0C, 1, 0x10, 0, 0, 0, 14, 0, 0, 0,
                     0, 0, 0, 0,
                     0x10, 0, 0, 0, 0, 0, 0, 0, 0, 0, 0, 0, 0, 0, 0, 0,
                     1, 0, 0, 0,
                     0,
                     1, 0, 0, 0,
                     2, 0, 6, 0,
                     0x39, 0x30]"

section \<open>Record framing\<close>

text \<open>
  A \<open>Record\<close> is a block at an absolute offset of the file; its accessors are absolute
  reads of the shared reader at \<open>offset + rel\<close> and do not move the position.
\<close>

definition record_timestamp :: "reader \<Rightarrow> int \<Rightarrow> error + int" where
  "record_timestamp r offset = u64leAt r (offset + 0x10)"

definition FILETIME_EPOCH_DIFF :: int where
  "FILETIME_EPOCH_DIFF = 11644473600000"

definition timestampAsDate :: "reader \<Rightarrow> int \<Rightarrow> error + jsdate" where
  "timestampAsDate r offset =
     (case record_timestamp r offset of
        Inl e \<Rightarrow> Inl e
      | Inr filetime \<Rightarrow>
          (let timestampMs = bigint_div filetime 10000 - FILETIME_EPOCH_DIFF
           in Inr (newDate timestampMs)))"

text \<open>A 24-byte record header: magic, size, record number, timestamp.\<close>

definition record_header :: "byte list \<Rightarrow> byte list" where
  "record_header ts = [0x2a, 0x2a, 0, 0, 0x18, 0, 0, 0, 1, 0, 0, 0, 0, 0, 0, 0] @ ts"

section \<open>Message arguments from the layout\<close>

text \<open>
  \<open>formatForMessage\<close>. The conversions left to the host are a parameter: \<open>host v\<close> is the
  string of a valid \<open>Date\<close> (\<open>toISOString\<close>), of a float (\<open>String\<close>) and of a UTF-8 decoded
  string. \<open>toISOString\<close> of an invalid \<open>Date\<close> throws a \<open>RangeError\<close>. An array is joined
  with \<open>', '\<close> into one string; a \<open>Uint8Array\<close> and an object go through \<open>toString\<close>.
\<close>

definition formatForMessage :: "(variant \<Rightarrow> jsstring) \<Rightarrow> variant \<Rightarrow> error + jsstring" where
  "formatForMessage host v =
     (case v of
        VNull \<Rightarrow> Inr []
      | VDate d \<Rightarrow> (case d of InvalidDate \<Rightarrow> Inl RangeError | Date t \<Rightarrow> Inr (host v))
      | VBig i \<Rightarrow> Inr (ascii (string_of_int i))
      | VNum i \<Rightarrow> Inr (ascii (string_of_int i))
      | VFloat32 b \<Rightarrow> Inr (host v)
      | VFloat64 b \<Rightarrow> Inr (host v)
      | VStr s \<Rightarrow> Inr s
      | VUtf8 bs \<Rightarrow> Inr (host v)
      | VArr xs \<Rightarrow> Inr (join (ascii '', '') xs)
      | VBool b \<Rightarrow> Inr (ascii (if b then ''true'' else ''false''))
      | VBytes bs \<Rightarrow> Inr (join (ascii '','') (map (\<lambda>b. ascii (string_of_int (uint b))) bs))
      | VObj obj \<Rightarrow> Inr (ascii ''[object Object]''))"

text \<open>A layout entry: an optional name and its parts, literal text or substitution index.\<close>

datatype part = Lit jsstring | Sub int

record layout_entry =
  entry_name :: "jsstring option"
  parts :: "part list"

definition is_sub :: "part \<Rightarrow> bool" where
  "is_sub p = (case p of Sub idx \<Rightarrow> True | Lit t \<Rightarrow> False)"

text \<open>\<open>(idx >= 0 && idx < substitutions.length) ? substitutions[idx] : ''\<close>\<close>

definition substitution_at :: "variant list \<Rightarrow> int \<Rightarrow> variant" where
  "substitution_at substitutions idx =
     (if idx \<ge> 0 \<and> idx < int (length substitutions) then substitutions ! nat idx else VStr [])"

text \<open>
  \<open>maxPlaceholders && out.length >= maxPlaceholders\<close>: an absent maximum and the maximum 0
  are falsy.
\<close>

definition reached :: "int option \<Rightarrow> jsstring list \<Rightarrow> bool" where
  "reached maxPlaceholders out =
     (case maxPlaceholders of
        None \<Rightarrow> False
      | Some m \<Rightarrow> m \<noteq> 0 \<and> int (length out) \<ge> m)"

text \<open>\<open>out.slice(0, end)\<close>: a negative \<open>end\<close> counts from the end of the array.\<close>

definition slice0 :: "'a list \<Rightarrow> int \<Rightarrow> 'a list" where
  "slice0 xs e = (if e < 0 then take (nat (int (length xs) + e)) xs else take (nat e) xs)"

text \<open>The loops either go on with \<open>out\<close> or return from the function.\<close>

datatype flow = Continue "jsstring list" | Return "jsstring list"

fun sub_parts_loop ::
  "(variant \<Rightarrow> jsstring) \<Rightarrow> variant list \<Rightarrow> int option \<Rightarrow> part list \<Rightarrow> jsstring list
     \<Rightarrow> error + flow" where
  "sub_parts_loop host substitutions maxPlaceholders [] out = Inr (Continue out)"
| "sub_parts_loop host substitutions maxPlaceholders (p # ps) out =
     (case p of
        Lit t \<Rightarrow> sub_parts_loop host substitutions maxPlaceholders ps out
      | Sub idx \<Rightarrow>
          (case formatForMessage host (substitution_at substitutions idx) of
             Inl e \<Rightarrow> Inl e
           | Inr s \<Rightarrow>
               (let out' = out @ [s]
                in if reached maxPlaceholders out'
                   then Inr (Return (slice0 out' (the maxPlaceholders)))
                   else sub_parts_loop host substitutions maxPlaceholders ps out')))"

definition literal_text :: "part list \<Rightarrow> jsstring" where
  "literal_text ps = concat (map (\<lambda>p. case p of Lit t \<Rightarrow> t | Sub idx \<Rightarrow> []) (filter (\<lambda>p. \<not> is_sub p) ps))"

fun entries_loop ::
  "(variant \<Rightarrow> jsstring) \<Rightarrow> variant list \<Rightarrow> int option \<Rightarrow> layout_entry list \<Rightarrow> jsstring list
     \<Rightarrow> error + flow" where
  "entries_loop host substitutions maxPlaceholders [] out = Inr (Continue out)"
| "entries_loop host substitutions maxPlaceholders (entry # rest) out =
     (if list_ex is_sub (parts entry) then
        (case sub_parts_loop host substitutions maxPlaceholders (parts entry) out of
           Inl e \<Rightarrow> Inl e
         | Inr (Return res) \<Rightarrow> Inr (Return res)
         | Inr (Continue out') \<Rightarrow> entries_loop host substitutions maxPlaceholders rest out')
      else
        (let out' = out @ [literal_text (parts entry)]
         in if reached maxPlaceholders out'
            then Inr (Return (slice0 out' (the maxPlaceholders)))
            else entries_loop host substitutions maxPlaceholders rest out'))"

definition buildArgsFromLayout ::
  "(variant \<Rightarrow> jsstring) \<Rightarrow> layout_entry list \<Rightarrow> variant list \<Rightarrow> int option
     \<Rightarrow> error + jsstring list" where
  "buildArgsFromLayout host layout substitutions maxPlaceholders =
     (case entries_loop host substitutions maxPlaceholders layout [] of
        Inl e \<Rightarrow> Inl e
      | Inr (Return res) \<Rightarrow> Inr res
      | Inr (Continue out) \<Rightarrow>
          Inr (if (case maxPlaceholders of None \<Rightarrow> False
                   | Some m \<Rightarrow> m \<noteq> 0 \<and> int (length out) > m)
               then slice0 out (the maxPlaceholders) else out))"

text \<open>
  The arguments as a list comprehension: one argument per substitution reference of an
  entry that has one, the joined literal text of an entry that has none. The first
  conversion that throws ends the whole.
\<close>

fun traverse :: "('a \<Rightarrow> error + 'b) \<Rightarrow> 'a list \<Rightarrow> error + 'b list" where
  "traverse g [] = Inr []"
| "traverse g (x # xs) =
     (case g x of
        Inl e \<Rightarrow> Inl e
      | Inr y \<Rightarrow> (case traverse g xs of Inl e \<Rightarrow> Inl e | Inr ys \<Rightarrow> Inr (y # ys)))"

definition sub_arg :: "(variant \<Rightarrow> jsstring) \<Rightarrow> variant list \<Rightarrow> part \<Rightarrow> error + jsstring" where
  "sub_arg host substitutions p =
     (case p of Sub idx \<Rightarrow> formatForMessage host (substitution_at substitutions idx)
              | Lit t \<Rightarrow> Inr t)"

definition entry_args ::
  "(variant \<Rightarrow> jsstring) \<Rightarrow> variant list \<Rightarrow> layout_entry \<Rightarrow> error + jsstring list" where
  "entry_args host substitutions entry =
     (if list_ex is_sub (parts entry)
      then traverse (sub_arg host substitutions) (filter is_sub (parts entry))
      else Inr [literal_text (parts entry)])"

definition layout_args ::
  "(variant \<Rightarrow> jsstring) \<Rightarrow> variant list \<Rightarrow> layout_entry list \<Rightarrow> error + jsstring list" where
  "layout_args host substitutions layout =
     (case traverse (entry_args host substitutions) layout of
        Inl e \<Rightarrow> Inl e
      | Inr args \<Rightarrow> Inr (concat args))"

section \<open>Message selection: placeholders, arguments used and fit\<close>

definition is_digit :: "char \<Rightarrow> bool" where
  "is_digit c = (c \<in> set ''0123456789'')"

definition digit_val :: "char \<Rightarrow> nat" where
  "digit_val c = of_char c - 48"

text \<open>
  \<open>parseInt(ds, 10)\<close> on a non-empty string of decimal digits, as an exact natural
  number. The code's value is a double: it is this number up to \<open>2^53\<close> and the nearest
  double beyond.
\<close>

definition parseInt10 :: "string \<Rightarrow> nat" where
  "parseInt10 ds = foldl (\<lambda>acc c. 10 * acc + digit_val c) 0 ds"

text \<open>
  \<open>placeholderMax\<close>: the largest \<open>N\<close> over the successive matches of \<open>/%(\d+)/g\<close>,
  starting from 0. The scan restarts after the digits of each match.
\<close>

function placeholderMax_from :: "nat \<Rightarrow> string \<Rightarrow> nat" where
  "placeholderMax_from mx [] = mx"
| "placeholderMax_from mx (c # cs) =
     (if c = CHR ''%'' \<and> takeWhile is_digit cs \<noteq> []
      then (let n = parseInt10 (takeWhile is_digit cs)
            in placeholderMax_from (if n > mx then n else mx) (dropWhile is_digit cs))
      else placeholderMax_from mx cs)"
  by pat_completeness auto
termination
  by (relation "measure (\<lambda>(mx, s). length s)")
     (auto simp: length_dropWhile_le le_imp_less_Suc)

definition placeholderMax :: "string \<Rightarrow> nat" where
  "placeholderMax tpl = placeholderMax_from 0 tpl"

datatype fit = Exact | Underflow | Overflow

record message_selection =
  templateText :: string
  placeholders :: nat
  fit :: fit
  argsUsed :: nat

text \<open>
  The selection assembled by \<open>buildResolvedEventFromRecord\<close> for the chosen template
  and the argument vector built for it.
\<close>

definition build_selection :: "string \<Rightarrow> string list \<Rightarrow> message_selection" where
  "build_selection chosenTemplate args =
     (let need = placeholderMax chosenTemplate;
          used = (if need > 0 then min (length args) need else length args);
          f = (if need = used then Exact else if need > used then Underflow else Overflow)
      in \<lparr>templateText = chosenTemplate, placeholders = need, fit = f, argsUsed = used\<rparr>)"

section \<open>Placeholder substitution\<close>

text \<open>
  Strings are lists of UTF-16 code units: \<open>%\<close> is 37, \<open>!\<close> is 33, \<open>n\<close> is 110, the line feed
  is 10, \<open>{\<close> is 123 and \<open>}\<close> is 125.
\<close>

definition digit_unit :: "nat \<Rightarrow> bool" where
  "digit_unit u \<longleftrightarrow> 48 \<le> u \<and> u \<le> 57"

definition letter_unit :: "nat \<Rightarrow> bool" where
  "letter_unit u \<longleftrightarrow> (65 \<le> u \<and> u \<le> 90) \<or> (97 \<le> u \<and> u \<le> 122)"

text \<open>
  \<open>parseInt(n, 10)\<close> on a non-empty run of digits, as an exact natural number. Beyond
  \<open>2^53\<close> the code's double is rounded; such an index is past the end of every array
  either way.
\<close>

definition parseInt_units :: "jsstring \<Rightarrow> nat" where
  "parseInt_units ds = foldl (\<lambda>acc u. 10 * acc + (u - 48)) 0 ds"

text \<open>\<open>args[i] ?? ''\<close>\<close>

definition arg_at :: "jsstring list \<Rightarrow> int \<Rightarrow> jsstring" where
  "arg_at args i = (if 0 \<le> i \<and> i < int (length args) then args ! nat i else [])"

text \<open>
  \<open>s.replace(re, f)\<close> with a global regular expression that matches no empty string: one
  pass from left to right over \<open>s\<close>; at each position the matcher gives the replacement
  and the length of the match, the scan goes on after the match, and the replacement is
  not scanned again.
\<close>

function replace_all :: "(jsstring \<Rightarrow> (jsstring \<times> nat) option) \<Rightarrow> jsstring \<Rightarrow> jsstring" where
  "replace_all m [] = []"
| "replace_all m (c # cs) =
     (case m (c # cs) of
        None \<Rightarrow> c # replace_all m cs
      | Some (rep, n) \<Rightarrow> rep @ replace_all m (drop (n - 1) cs))"
  by pat_completeness auto

termination by (relation "measure (\<lambda>(m, s). length s)") auto

text \<open>\<open>/%(\d+)!([^!]*)!/\<close> at the start of \<open>s\<close>, replaced by \<open>args[N - 1] ?? ''\<close>.\<close>

definition match_format :: "jsstring list \<Rightarrow> jsstring \<Rightarrow> (jsstring \<times> nat) option" where
  "match_format args s =
     (case s of
        [] \<Rightarrow> None
      | c # cs \<Rightarrow>
          if c \<noteq> 37 \<or> takeWhile digit_unit cs = [] then None
          else (case dropWhile digit_unit cs of
                  [] \<Rightarrow> None
                | b # r2 \<Rightarrow>
                    if b \<noteq> 33 then None
                    else (case dropWhile (\<lambda>u. u \<noteq> 33) r2 of
                            [] \<Rightarrow> None
                          | e # r3 \<Rightarrow>
                              Some (arg_at args (int (parseInt_units (takeWhile digit_unit cs)) - 1),
                                    1 + length (takeWhile digit_unit cs) + 1
                                      + length (takeWhile (\<lambda>u. u \<noteq> 33) r2) + 1))))"

text \<open>\<open>/%(\d+)/\<close>, replaced by \<open>args[N - 1] ?? ''\<close>.\<close>

definition match_plain :: "jsstring list \<Rightarrow> jsstring \<Rightarrow> (jsstring \<times> nat) option" where
  "match_plain args s =
     (case s of
        [] \<Rightarrow> None
      | c # cs \<Rightarrow>
          if c \<noteq> 37 \<or> takeWhile digit_unit cs = [] then None
          else Some (arg_at args (int (parseInt_units (takeWhile digit_unit cs)) - 1),
                     1 + length (takeWhile digit_unit cs)))"

text \<open>\<open>/%n/\<close>, replaced by a line feed.\<close>

definition match_newline :: "jsstring \<Rightarrow> (jsstring \<times> nat) option" where
  "match_newline s =
     (case s of
        c # d # cs \<Rightarrow> if c = 37 \<and> d = 110 then Some ([10], 2) else None
      | _ \<Rightarrow> None)"

text \<open>\<open>/\{(\d+)\}/\<close>, replaced by \<open>args[N] ?? ''\<close>.\<close>

definition match_braces :: "jsstring list \<Rightarrow> jsstring \<Rightarrow> (jsstring \<times> nat) option" where
  "match_braces args s =
     (case s of
        [] \<Rightarrow> None
      | c # cs \<Rightarrow>
          if c \<noteq> 123 \<or> takeWhile digit_unit cs = [] then None
          else (case dropWhile digit_unit cs of
                  [] \<Rightarrow> None
                | b # r2 \<Rightarrow>
                    if b \<noteq> 125 then None
                    else Some (arg_at args (int (parseInt_units (takeWhile digit_unit cs))),
                               1 + length (takeWhile digit_unit cs) + 1)))"

text \<open>\<open>/![A-Za-z]+!/\<close>, replaced by the empty string.\<close>

definition match_token :: "jsstring \<Rightarrow> (jsstring \<times> nat) option" where
  "match_token s =
     (case s of
        [] \<Rightarrow> None
      | c # cs \<Rightarrow>
          if c \<noteq> 33 \<or> takeWhile letter_unit cs = [] then None
          else (case dropWhile letter_unit cs of
                  [] \<Rightarrow> None
                | b # r2 \<Rightarrow>
                    if b \<noteq> 33 then None
                    else Some ([], 1 + length (takeWhile letter_unit cs) + 1)))"

text \<open>The four substitution passes, then the pass that strips the format tokens.\<close>

definition substitute :: "jsstring \<Rightarrow> jsstring list \<Rightarrow> jsstring" where
  "substitute template args =
     replace_all (match_braces args)
       (replace_all match_newline
         (replace_all (match_plain args)
           (replace_all (match_format args) template)))"

definition applyMessageTemplate :: "jsstring \<Rightarrow> jsstring list \<Rightarrow> jsstring" where
  "applyMessageTemplate template args = replace_all match_token (substitute template args)"

text \<open>
  A residual placeholder \<open>%N\<close> with \<open>1 \<le> N \<le> len\<close> (\<open>N\<close> read from all the digits that
  follow the \<open>%\<close>), and a residual format token \<open>!fmt!\<close>.
\<close>

fun residual_placeholder :: "nat \<Rightarrow> jsstring \<Rightarrow> bool" where
  "residual_placeholder len [] = False"
| "residual_placeholder len (c # cs) =
     ((c = 37 \<and> takeWhile digit_unit cs \<noteq> []
        \<and> 1 \<le> parseInt_units (takeWhile digit_unit cs)
        \<and> parseInt_units (takeWhile digit_unit cs) \<le> len)
      \<or> residual_placeholder len cs)"

fun residual_token :: "jsstring \<Rightarrow> bool" where
  "residual_token [] = False"
| "residual_token (c # cs) = (match_token (c # cs) \<noteq> None \<or> residual_token cs)"

text \<open>Every \<open>%\<close> is directly followed by a digit or by \<open>n\<close>.\<close>

fun percent_escapes :: "jsstring \<Rightarrow> bool" where
  "percent_escapes [] = True"
| "percent_escapes (c # cs) =
     ((c \<noteq> 37 \<or> (case cs of [] \<Rightarrow> False | d # ds \<Rightarrow> digit_unit d \<or> d = 110))
      \<and> percent_escapes cs)"

text \<open>No two adjacent \<open>!\<close>.\<close>

fun no_double_bang :: "jsstring \<Rightarrow> bool" where
  "no_double_bang [] = True"
| "no_double_bang (c # cs) =
     ((c \<noteq> 33 \<or> (case cs of [] \<Rightarrow> True | d # ds \<Rightarrow> d \<noteq> 33)) \<and> no_double_bang cs)"

text \<open>Every \<open>%\<close> is directly followed by \<open>n\<close>.\<close>

fun percent_newlines :: "jsstring \<Rightarrow> bool" where
  "percent_newlines [] = True"
| "percent_newlines (c # cs) =
     ((c \<noteq> 37 \<or> (case cs of [] \<Rightarrow> False | d # ds \<Rightarrow> d = 110)) \<and> percent_newlines cs)"

section \<open>Properties\<close>

subsection \<open>Record timestamps\<close>

lemma byteAt_range: "0 \<le> byteAt r off \<and> byteAt r off < 256"
proof -
  have "uint (buffer r ! nat off) < 2 ^ LENGTH(8)"
    by (rule uint_bounded)
  then show ?thesis
    by (simp add: byteAt_def)
qed

lemma getUint32le_range: "0 \<le> getUint32le r off \<and> getUint32le r off < 4294967296"
  using byteAt_range [of r off] byteAt_range [of r "off + 1"] byteAt_range [of r "off + 2"]
    byteAt_range [of r "off + 3"]
  by (simp add: getUint32le_def)

lemma u64leAt_range:
  assumes "u64leAt r off = Inr v"
  shows "0 \<le> v \<and> v < 18446744073709551616"
  using assms getUint32le_range [of r off] getUint32le_range [of r "off + 4"]
  by (auto simp: u64leAt_def split: sum.splits)

lemma timestampAsDate_formula:
  assumes "record_timestamp r offset = Inr ft"
  shows "timestampAsDate r offset = Inr (Date (ft div 10000 - 11644473600000))"
proof -
  have range: "0 \<le> ft \<and> ft < 18446744073709551616"
    using assms u64leAt_range by (simp add: record_timestamp_def)
  then have "bigint_div ft 10000 = ft div 10000"
    by (cases "ft = 0") (simp_all add: bigint_div_def)
  moreover have "ft div 10000 < 1844674407370956"
  proof -
    have "ft \<le> 18446744073709551615" using range by simp
    then have "ft div 10000 \<le> 18446744073709551615 div 10000"
      by (rule zdiv_mono1) simp
    then show ?thesis by simp
  qed
  moreover have "0 \<le> ft div 10000"
    using range by (simp add: pos_imp_zdiv_nonneg_iff)
  ultimately show ?thesis
    using assms
    by (simp add: timestampAsDate_def FILETIME_EPOCH_DIFF_def newDate_def Let_def)
qed

text \<open>
  C6. \<open>Record.timestampAsDate\<close> subtracts 11,644,473,600,000 ms from the FILETIME
  in milliseconds, also when the FILETIME is 0: a record whose timestamp field is 0
  is dated 1601-01-01T00:00:00Z (time value -11,644,473,600,000), not the Unix epoch.
  Only the utility \<open>filetimeToDate\<close> maps 0 to the Unix epoch.
\<close>

theorem timestampAsDate_zero_is_1601:
  "timestampAsDate \<lparr>buffer = record_header [0, 0, 0, 0, 0, 0, 0, 0], position = 0\<rparr> 0
     = Inr (Date (- 11644473600000))
   \<and> filetimeToDate 0 = Date 0"
  by (simp add: timestampAsDate_def record_timestamp_def u64leAt_def checkBounds_def rsize_def
      getUint32le_def byteAt_def record_header_def bigint_div_def FILETIME_EPOCH_DIFF_def
      newDate_def filetimeToDate_def)

subsection \<open>Variant values\<close>

lemmas reader_simps = rbind_def rreturn_def advance_def checkBounds_def rsize_def
  getUint32le_def byteAt_def tell_def seek_def u8_def i8_def u16le_def i16le_def u32le_def
  u32be_def i32le_def u64le_def i64le_def u8At_def i8At_def u16leAt_def i16leAt_def u32leAt_def
  u32beAt_def i32leAt_def u64leAt_def i64leAt_def bytesAt_def bytesHere_def skip_def
  readBuffer_def peek_def f32le_def f64le_def

text \<open>
  For the types without a natural width (Null, WString, String, Binary, BXml,
  WStringArray and the unknown types) a substitution-mode decode that returns leaves the
  cursor at \<open>start + declared size\<close>.
\<close>

lemma parse_declared_size_position:
  assumes "natural_width ty = None" and "ty \<noteq> 0x13" and "0 \<le> n"
    and "parse tza ty (Some n) r = (Inr res, r')"
  shows "position r' = position r + n"
  using assms
  by (auto simp: natural_width_def parse_def parse_switch_def measured_def fixed_def reader_simps
      parseWStringWithLength_def parseStringWithLength_def parseBXmlWithLength_def
      parseWStringArrayWithLength_def Let_def
      split: if_splits sum.splits prod.splits)

text \<open>
  C5. A fixed-width type reads its natural width whatever size is declared: a Size
  value (type 0x10) declared with 8 bytes is read as a \<open>u32\<close>, 4 bytes are reported as
  consumed and the cursor is left at \<open>start + 4\<close>, not at \<open>start + 8\<close>.
\<close>

theorem parse_size_declared_8_stops_at_4:
  "parse (\<lambda>t. 0) 0x10 (Some 8) \<lparr>buffer = [1, 0, 0, 0, 0, 0, 0, 0], position = 0\<rparr>
     = (Inr (VNum 1, 4), \<lparr>buffer = [1, 0, 0, 0, 0, 0, 0, 0], position = 4\<rparr>)"
  by (simp add: parse_def parse_switch_def fixed_def reader_simps)

text \<open>
  C7. \<open>parseSystemTime\<close> reads the eight \<open>u16\<close> fields and hands them to the
  local-time \<open>Date\<close> constructor: the same 16 bytes (2024-01-15 10:30:45.123) decode to
  different instants on a machine in UTC and on a machine one hour east of UTC.
\<close>

theorem parseSystemTime_depends_on_time_zone:
  "fst (parseSystemTime (\<lambda>t. 0) \<lparr>buffer = systime_bytes, position = 0\<rparr>)
     = Inr (Date 1705314645123)
   \<and> fst (parseSystemTime (\<lambda>t. 3600000) \<lparr>buffer = systime_bytes, position = 0\<rparr>)
     = Inr (Date 1705311045123)"
  by (simp add: parseSystemTime_def systime_bytes_def reader_simps newDateLocal_def
      MakeDate_def MakeDay_def MakeTime_def DayFromYear_def month_start_def InLeapYear_def
      newDate_def)

subsection \<open>Message selection\<close>

text \<open>
  C10. In every assembled selection whose template has at least one placeholder the fit
  is never overflow; overflow is only possible for a template without placeholders
  together with a non-empty argument vector.
\<close>

theorem selection_fit_never_overflow:
  "(1 \<le> placeholders (build_selection t args) \<longrightarrow> fit (build_selection t args) \<noteq> Overflow)
   \<and> (fit (build_selection t args) = Overflow \<longrightarrow>
        placeholders (build_selection t args) = 0 \<and> args \<noteq> [])"
  by (auto simp: build_selection_def Let_def split: if_splits)

theorem selection_fit_never_overflow_witness:
  "1 \<le> placeholders (build_selection ''%1 and %2'' [''a'', ''b'', ''c''])
   \<and> fit (build_selection ''%1 and %2'' [''a'', ''b'', ''c'']) = Exact
   \<and> fit (build_selection ''done'' [''a'']) = Overflow
   \<and> placeholders (build_selection ''done'' [''a'']) = 0"
  using selection_fit_never_overflow [of "''%1 and %2''" "[''a'', ''b'', ''c'']"]
    selection_fit_never_overflow [of "''done''" "[''a'']"]
  by (simp add: build_selection_def placeholderMax_def is_digit_def parseInt10_def digit_val_def)

subsection \<open>Elements: declared length and content window\<close>

lemma xbind_Some_Inr:
  "xbind m f s = Some (Inr v, s') \<longleftrightarrow> (\<exists>a s1. m s = Some (Inr a, s1) \<and> f a s1 = Some (Inr v, s'))"
  by (auto simp: xbind_def split: option.splits sum.splits prod.splits)

lemma liftR_Some:
  "liftR m (r, ch) = Some (res, s1) \<longleftrightarrow> (\<exists>r'. m r = (res, r') \<and> s1 = (r', ch))"
  by (auto simp: liftR_def split: prod.splits)



lemma checkBounds_buffer: "buffer r' = buffer r \<Longrightarrow> checkBounds r' = checkBounds r"
  by (auto simp: checkBounds_def rsize_def fun_eq_iff)


lemma u32leAt_buffer: "buffer r' = buffer r \<Longrightarrow> u32leAt r' off = u32leAt r off"
  by (simp add: u32leAt_def checkBounds_def rsize_def byteAt_def getUint32le_def)




lemma same_frame_refl [simp]: "same_frame ch ch"
  by (simp add: same_frame_def)

lemma same_frame_trans: "same_frame a b \<Longrightarrow> same_frame b c \<Longrightarrow> same_frame a c"
  by (simp add: same_frame_def)

lemma addString_loaded_frame: "addString_loaded ofs ch = (res, ch') \<Longrightarrow> same_frame ch ch'"
  by (auto simp: addString_loaded_def same_frame_def split: prod.splits sum.splits option.splits)

lemma follow_chain_frame: "follow_chain k ofs ch = Some (res, ch') \<Longrightarrow> same_frame ch ch'"
proof (induction k arbitrary: ofs ch)
  case 0
  then show ?case by simp
next
  case (Suc k)
  show ?case
  proof (cases "addString_loaded ofs ch")
    case (Pair a ch1)
    then have f1: "same_frame ch ch1" by (rule addString_loaded_frame)
    show ?thesis
      using Suc.prems Pair f1 Suc.IH [of "next_string_offset (projr a)" ch1]
      by (auto simp: Let_def split: if_splits sum.splits intro: same_frame_trans)
  qed
qed

lemma load_buckets_frame: "load_buckets k i n ch = Some (res, ch') \<Longrightarrow> same_frame ch ch'"
proof (induction n arbitrary: i ch)
  case 0
  then show ?case by simp
next
  case (Suc n)
  then show ?case
    by (auto split: sum.splits option.splits prod.splits
        dest!: follow_chain_frame intro: same_frame_trans)
qed

lemma loadStrings_frame: "loadStrings k ch = Some (res, ch') \<Longrightarrow> same_frame ch ch'"
proof -
  assume a: "loadStrings k ch = Some (res, ch')"
  show ?thesis
  proof (cases "string_table ch")
    case None
    obtain x ch1 where p: "addString_loaded 0 (ch\<lparr>string_table := Some Map.empty\<rparr>) = (x, ch1)"
      by (cases "addString_loaded 0 (ch\<lparr>string_table := Some Map.empty\<rparr>)")
    then have "same_frame (ch\<lparr>string_table := Some Map.empty\<rparr>) ch1"
      by (rule addString_loaded_frame)
    then have f1: "same_frame ch ch1" by (simp add: same_frame_def)
    from a None p have "load_buckets k 0 64 ch1 = Some (res, ch')"
      by (simp add: loadStrings_def Let_def)
    then have "same_frame ch1 ch'" by (rule load_buckets_frame)
    with f1 show ?thesis by (rule same_frame_trans)
  next
    case (Some m)
    with a show ?thesis by (simp add: loadStrings_def)
  qed
qed





lemma xbind_cong_at:
  "g s = f s \<Longrightarrow> xbind g h s = xbind f h s"
  by (simp add: xbind_def)






lemma seek_Inr: "seek p r = (Inr u, r') \<Longrightarrow> r' = r\<lparr>position := p\<rparr>"
  by (auto simp: seek_def split: if_splits)

subsection \<open>The bytes, the chunk offset and the chunk reader are left alone\<close>

named_theorems rpres_intros

lemma rpresD: "rpres m \<Longrightarrow> m r = (res, r') \<Longrightarrow> buffer r' = buffer r"
  by (metis rpres_def snd_conv)

lemma rpres_rreturn [rpres_intros]: "rpres (rreturn v)"
  by (simp add: rpres_def rreturn_def)

lemma rpres_rbind [rpres_intros]: "rpres m \<Longrightarrow> (\<And>v. rpres (f v)) \<Longrightarrow> rpres (rbind m f)"
  by (auto simp: rpres_def rbind_def split: prod.splits sum.splits) (metis snd_conv)+

lemma rpres_if [rpres_intros]: "rpres a \<Longrightarrow> rpres b \<Longrightarrow> rpres (if c then a else b)"
  by simp

lemma rpres_advance [rpres_intros]: "rpres (advance rd n)"
  by (simp add: rpres_def advance_def split: sum.splits)

lemma rpres_seek [rpres_intros]: "rpres (seek p)"
  by (simp add: rpres_def seek_def)

lemma rpres_peek [rpres_intros]: "rpres peek"
  by (simp add: rpres_def peek_def)

lemma rpres_readBuffer [rpres_intros]: "rpres (readBuffer n)"
  by (simp add: rpres_def readBuffer_def split: sum.splits)

lemma rpres_bytesHere [rpres_intros]: "rpres (bytesHere n)"
  by (simp add: rpres_def bytesHere_def)

lemma rpres_skip [rpres_intros]: "rpres (skip n)"
  by (simp add: rpres_def skip_def seek_def)

lemma rpres_prims [rpres_intros]:
  "rpres u8" "rpres i8" "rpres u16le" "rpres i16le" "rpres u32le" "rpres u32be" "rpres i32le"
  "rpres u64le" "rpres i64le" "rpres f32le" "rpres f64le"
  by (simp_all add: u8_def i8_def u16le_def i16le_def u32le_def u32be_def i32le_def u64le_def
      i64le_def f32le_def f64le_def rpres_advance)

lemma rpres_read_units [rpres_intros]: "rpres (read_units n)"
proof (induction n)
  case 0
  show ?case by (simp add: rpres_def)
next
  case (Suc n)
  have "\<And>r. buffer (snd (u16le r)) = buffer r" using rpres_prims(3) by (simp add: rpres_def)
  then show ?case using Suc
    by (auto simp: rpres_def split: prod.splits sum.splits) (metis snd_conv)+
qed

lemma rpres_wstring [rpres_intros]: "rpres wstring"
  unfolding wstring_def by (intro rpres_intros)

lemma rpres_NameStringNode_ctor [rpres_intros]: "rpres NameStringNode_ctor"
  unfolding NameStringNode_ctor_def by (intro rpres_intros)

lemma rpres_parseWString [rpres_intros]: "rpres parseWString"
  unfolding parseWString_def by (intro rpres_intros)

lemma rpres_parse_parts [rpres_intros]:
  "rpres (parseWStringWithLength n)" "rpres parseString" "rpres (parseStringWithLength n)"
  "rpres parseBinary" "rpres parseGuid" "rpres parseFileTime" "rpres (parseSystemTime tza)"
  "rpres parseBXml" "rpres (parseWStringArrayWithLength n)"
  unfolding parseWStringWithLength_def parseString_def parseStringWithLength_def parseBinary_def
    parseGuid_def parseFileTime_def parseSystemTime_def parseBXml_def
    parseWStringArrayWithLength_def Let_def
  by (intro rpres_intros)+

lemma rpres_read_subAuthorities [rpres_intros]: "rpres (read_subAuthorities n)"
proof (induction n)
  case 0
  show ?case by (simp add: rpres_def)
next
  case (Suc n)
  have "\<And>r. buffer (snd (u32le r)) = buffer r" using rpres_prims(5) by (simp add: rpres_def)
  then show ?case using Suc
    by (auto simp: rpres_def split: prod.splits sum.splits) (metis snd_conv)+
qed

lemma rpres_read_wstrings [rpres_intros]: "rpres (read_wstrings n)"
proof (induction n)
  case 0
  show ?case by (simp add: rpres_def)
next
  case (Suc n)
  have "\<And>r. buffer (snd (parseWString r)) = buffer r"
    using rpres_parseWString by (simp add: rpres_def)
  then show ?case using Suc
    by (auto simp: rpres_def split: prod.splits sum.splits) (metis snd_conv)+
qed

lemma rpres_parseSid [rpres_intros]: "rpres parseSid"
  unfolding parseSid_def Let_def by (intro rpres_intros)

lemma rpres_parseWStringArray [rpres_intros]: "rpres parseWStringArray"
  unfolding parseWStringArray_def by (intro rpres_intros)

lemma rpres_pure_read [rpres_intros]: "rpres (\<lambda>r. (g r, r))"
  by (simp add: rpres_def)

lemma rpres_parseBXmlWithLength [rpres_intros]: "rpres (parseBXmlWithLength n)"
proof (unfold rpres_def, intro allI)
  fix r
  have "rpres (rbind (\<lambda>r'. (bytesAt r' (tell r) n, r')) (\<lambda>bytes.
               rbind (seek (tell r + n)) (\<lambda>_.
               rreturn \<lparr>bxmlData = Some bytes, bxmlLength = Some n, isBXml = True,
                         isEmpty = False, baseOffset = Some (tell r)\<rparr>)))"
    by (intro rpres_intros)
  then show "buffer (snd (parseBXmlWithLength n r)) = buffer r"
    unfolding parseBXmlWithLength_def Let_def rpres_def
    by (simp add: rreturn_def)
qed

lemma rpres_measured [rpres_intros]: "rpres m \<Longrightarrow> rpres (measured sp m mk)"
  unfolding measured_def
  by (rule rpres_rbind) (simp_all add: rpres_def rreturn_def)

lemma rpres_fixed [rpres_intros]: "rpres m \<Longrightarrow> rpres (fixed m mk n)"
  unfolding fixed_def by (intro rpres_intros)

lemma rpres_case_option [rpres_intros]:
  "rpres a \<Longrightarrow> (\<And>x. rpres (b x)) \<Longrightarrow> rpres (case el of None \<Rightarrow> a | Some x \<Rightarrow> b x)"
  by (cases el) simp_all

lemma rpres_parse_switch [rpres_intros]: "rpres (parse_switch tza ty el)"
proof (unfold rpres_def, intro allI)
  fix r
  show "buffer (snd (parse_switch tza ty el r)) = buffer r"
    unfolding parse_switch_def Let_def
    by (rule rpresD [OF _ surjective_pairing]) (intro rpres_intros)
qed

lemma rpres_parse [rpres_intros]: "rpres (parse tza ty el)"
proof (unfold rpres_def, intro allI)
  fix r
  obtain res r1 where p: "parse_switch tza ty el r = (res, r1)"
    by (cases "parse_switch tza ty el r")
  then have b1: "buffer r1 = buffer r"
    using rpres_parse_switch by (rule rpresD [rotated])
  have sk: "\<And>p r2. buffer (snd (seek p r2)) = buffer r2"
    by (simp add: seek_def)
  show "buffer (snd (parse tza ty el r)) = buffer r"
    using p b1 sk [of _ r1]
    by (auto simp: parse_def Let_def split: sum.splits option.splits prod.splits)
       (metis snd_conv)+
qed

lemma rpres_read_declarations [rpres_intros]: "rpres (read_declarations n)"
proof (induction n)
  case 0
  show ?case by (simp add: rpres_def)
next
  case (Suc n)
  have "rpres (rbind u16le (\<lambda>size. rbind u8 (\<lambda>type. rbind u8 (\<lambda>reserved.
                rreturn \<lparr>dsize = size, dtype = type\<rparr>))))"
    by (intro rpres_intros)
  then show ?case using Suc
    by (auto simp: rpres_def split: prod.splits sum.splits) (metis snd_conv)+
qed

lemma rpres_read_declarations_embedded [rpres_intros]: "rpres (read_declarations_embedded n)"
proof (induction n)
  case 0
  show ?case by (simp add: rpres_def)
next
  case (Suc n)
  have "rpres (rbind u16le (\<lambda>size. rbind u8 (\<lambda>type. rbind u8 (\<lambda>reserved.
                rreturn \<lparr>dsize = size, dtype = type\<rparr>))))"
    by (intro rpres_intros)
  then show ?case using Suc
    by (auto simp: rpres_def split: prod.splits sum.splits) (metis snd_conv)+
qed

lemma rpres_read_values [rpres_intros]: "rpres (read_values tza ds)"
proof (induction ds)
  case Nil
  show ?case by (simp add: rpres_def)
next
  case (Cons d ds)
  have "\<And>r. buffer (snd (parse tza (dtype d) (Some (dsize d)) r)) = buffer r"
    using rpres_parse by (simp add: rpres_def)
  then show ?case using Cons
    by (auto simp: rpres_def split: prod.splits sum.splits) (metis snd_conv)+
qed

lemma rpres_read_values_embedded [rpres_intros]: "rpres (read_values_embedded tza ds)"
proof (induction ds)
  case Nil
  show ?case by (simp add: rpres_def)
next
  case (Cons d ds)
  have "\<And>r. buffer (snd (parse tza (dtype d) (Some (dsize d)) r)) = buffer r"
    using rpres_parse by (simp add: rpres_def)
  then show ?case using Cons
    by (auto simp: rpres_def split: prod.splits sum.splits) (metis snd_conv)+
qed

lemma rpres_read_substitutionCount [rpres_intros]: "rpres read_substitutionCount"
proof (unfold rpres_def, intro allI)
  fix r
  show "buffer (snd (read_substitutionCount r)) = buffer r"
    unfolding read_substitutionCount_def Let_def
    by (rule rpresD [OF _ surjective_pairing]) (intro rpres_intros)
qed

lemma rpres_rootPhase2 [rpres_intros]: "rpres (rootPhase2 tza st len)"
proof -
  have "\<And>u. rpres (\<lambda>r1.
       if tell r1 + 4 \<le> rsize r1 then
         rbind read_substitutionCount (\<lambda>substitutionCount.
           if substitutionCount > 0 \<and> substitutionCount < 1024 then
             rbind (read_declarations (nat substitutionCount)) (\<lambda>subDeclarations.
             rbind (read_values tza subDeclarations) (\<lambda>vals.
             rreturn (fst vals, 4 + 4 * int (length subDeclarations) + snd vals)))
           else rreturn ([], 0)) r1
       else rreturn ([], 0) r1)"
  proof -
    have "rpres (rbind read_substitutionCount (\<lambda>substitutionCount.
           if substitutionCount > 0 \<and> substitutionCount < 1024 then
             rbind (read_declarations (nat substitutionCount)) (\<lambda>subDeclarations.
             rbind (read_values tza subDeclarations) (\<lambda>vals.
             rreturn (fst vals, 4 + 4 * int (length subDeclarations) + snd vals)))
           else rreturn ([], 0)))"
      by (intro rpres_intros)
    then show "\<And>u. ?thesis u"
      by (simp add: rpres_def rreturn_def)
  qed
  then show ?thesis
    unfolding rootPhase2_def by (intro rpres_intros)
qed

lemma embedded_substitutions_buffer:
  "buffer (snd (embedded_substitutions tza off r)) = buffer r"
proof -
  have "rpres (rbind (seek off) (\<lambda>_.
           rbind u32le (\<lambda>count.
           rbind (read_declarations_embedded (nat count)) (\<lambda>decls.
           read_values_embedded tza decls))))"
    by (intro rpres_intros)
  then show ?thesis
    by (auto simp: embedded_substitutions_def rpres_def split: prod.splits sum.splits)
       (metis snd_conv)+
qed

named_theorems ppres_intros

lemma st_rel_refl [simp]: "st_rel s s"
  by (simp add: st_rel_def)

lemma st_rel_trans: "st_rel a b \<Longrightarrow> st_rel b c \<Longrightarrow> st_rel a c"
  by (auto simp: st_rel_def intro: same_frame_trans)

lemma ppresD: "ppres m \<Longrightarrow> m s = Some (res, s') \<Longrightarrow> st_rel s s'"
  unfolding ppres_def by blast

lemma ppres_xreturn [ppres_intros]: "ppres (xreturn v)"
  by (simp add: ppres_def xreturn_def)

lemma ppres_xbind [ppres_intros]:
  assumes "ppres m" and "\<And>v. ppres (f v)"
  shows "ppres (xbind m f)"
  unfolding ppres_def
proof (intro allI impI)
  fix s res s'
  assume a: "xbind m f s = Some (res, s')"
  show "st_rel s s'"
  proof (cases "m s")
    case None
    with a show ?thesis by (simp add: xbind_def)
  next
    case (Some p)
    obtain x s1 where p: "p = (x, s1)" by (cases p)
    have r1: "st_rel s s1" using assms(1) Some p by (auto dest: ppresD)
    show ?thesis
    proof (cases x)
      case (Inl e)
      with a Some p r1 show ?thesis by (simp add: xbind_def)
    next
      case (Inr v)
      with a Some p have "f v s1 = Some (res, s')" by (simp add: xbind_def)
      then have "st_rel s1 s'" using assms(2) by (auto dest: ppresD)
      with r1 show ?thesis by (rule st_rel_trans)
    qed
  qed
qed

lemma ppres_xcatch [ppres_intros]:
  assumes "ppres m" and "\<And>e. ppres (h e)"
  shows "ppres (xcatch m h)"
  unfolding ppres_def
proof (intro allI impI)
  fix s res s'
  assume a: "xcatch m h s = Some (res, s')"
  show "st_rel s s'"
  proof (cases "m s")
    case None
    with a show ?thesis by (simp add: xcatch_def)
  next
    case (Some p)
    obtain x s1 where p: "p = (x, s1)" by (cases p)
    have r1: "st_rel s s1" using assms(1) Some p by (auto dest: ppresD)
    show ?thesis
    proof (cases x)
      case (Inr v)
      with a Some p r1 show ?thesis by (simp add: xcatch_def)
    next
      case (Inl e)
      with a Some p have "h e s1 = Some (res, s')" by (simp add: xcatch_def)
      then have "st_rel s1 s'" using assms(2) by (auto dest: ppresD)
      with r1 show ?thesis by (rule st_rel_trans)
    qed
  qed
qed

lemma ppres_if [ppres_intros]: "ppres a \<Longrightarrow> ppres b \<Longrightarrow> ppres (if c then a else b)"
  by simp

lemma ppres_liftR [ppres_intros]: "rpres m \<Longrightarrow> ppres (liftR m)"
  by (auto simp: ppres_def liftR_def st_rel_def rpres_def split: prod.splits) (metis snd_conv)

lemma ppres_liftC [ppres_intros]: "cpres m \<Longrightarrow> ppres (liftC m)"
  by (auto simp: ppres_def liftC_def st_rel_def cpres_def split: prod.splits option.splits)

lemma ppres_getters [ppres_intros]: "ppres get_tell" "ppres get_rsize" "ppres get_chunk_offset"
  by (simp_all add: ppres_def get_tell_def get_rsize_def get_chunk_offset_def)

lemma cpres_loadStrings: "cpres (loadStrings k)"
  using loadStrings_frame by (auto simp: cpres_def)

lemma cpres_strings [ppres_intros]: "cpres (strings k)"
  by (simp add: strings_def cpres_loadStrings)

lemma cpres_addString [ppres_intros]: "cpres (addString k off)"
  unfolding cpres_def
proof (intro allI impI)
  fix ch res ch'
  assume a: "addString k off ch = Some (res, ch')"
  then obtain x ch1 where l: "loadStrings k ch = Some (x, ch1)"
    by (auto simp: addString_def xbind_def split: option.splits)
  then have f1: "same_frame ch ch1" by (rule loadStrings_frame)
  show "same_frame ch ch'"
  proof (cases x)
    case (Inl e)
    with a l f1 show ?thesis by (simp add: addString_def xbind_def)
  next
    case (Inr u)
    with a l have "addString_loaded off ch1 = (res, ch')" by (simp add: addString_def xbind_def)
    then have "same_frame ch1 ch'" by (rule addString_loaded_frame)
    with f1 show ?thesis by (rule same_frame_trans)
  qed
qed

lemma ppres_simple_ctors [ppres_intros]:
  "ppres (StartOfStreamNode_ctor t)" "ppres (ValueTextNode_ctor tza t)"
  "ppres (CDataSectionNode_ctor t)" "ppres (CharacterReferenceNode_ctor t)"
  "ppres (EntityReferenceNode_ctor t)" "ppres (ProcessingInstructionTargetNode_ctor t)"
  "ppres (ProcessingInstructionDataNode_ctor t)" "ppres (NormalSubstitutionNode_ctor t)"
  "ppres (OptionalSubstitutionNode_ctor t)"
  unfolding StartOfStreamNode_ctor_def ValueTextNode_ctor_def CDataSectionNode_ctor_def
    CharacterReferenceNode_ctor_def EntityReferenceNode_ctor_def
    ProcessingInstructionTargetNode_ctor_def ProcessingInstructionDataNode_ctor_def
    NormalSubstitutionNode_ctor_def OptionalSubstitutionNode_ctor_def
  by (intro ppres_intros rpres_intros)+

lemma ppres_attribute_inline_name [ppres_intros]: "ppres (attribute_inline_name k so)"
  unfolding attribute_inline_name_def by (intro ppres_intros rpres_intros)

lemma ppres_AttributeNode_ctor [ppres_intros]:
  "(\<And>e. ppres (f e)) \<Longrightarrow> ppres (AttributeNode_ctor k f t)"
  unfolding AttributeNode_ctor_def by (intro ppres_intros rpres_intros)

lemma ppres_attr_loop [ppres_intros]:
  assumes "\<And>e. ppres (f e)"
  shows "ppres (attr_loop k f endp acc)"
proof (induction k arbitrary: acc)
  case 0
  show ?case by (simp add: ppres_def)
next
  case (Suc k)
  show ?case
    unfolding ppres_def
  proof (intro allI impI)
    fix s res s'
    assume a: "attr_loop (Suc k) f endp acc s = Some (res, s')"
    show "st_rel s s'"
    proof (cases "f False s")
      case None
      with a show ?thesis
        by (auto split: if_splits prod.splits sum.splits)
    next
      case (Some p)
      obtain x s1 where p: "p = (x, s1)" by (cases p)
      have r1: "st_rel s s1" using assms Some p by (auto dest: ppresD)
      have ih: "\<And>acc' r. attr_loop k f endp acc' s1 = Some (r, s') \<Longrightarrow> st_rel s1 s'"
        using Suc.IH by (auto dest: ppresD)
      show ?thesis
        using a Some p r1 ih
        by (auto simp: Let_def split: if_splits prod.splits sum.splits intro: st_rel_trans)
    qed
  qed
qed

lemma ppres_child_loop [ppres_intros]:
  assumes "\<And>e. ppres (f e)"
  shows "ppres (child_loop k f endp acc)"
proof (induction k arbitrary: acc)
  case 0
  show ?case by (simp add: ppres_def)
next
  case (Suc k)
  show ?case
    unfolding ppres_def
  proof (intro allI impI)
    fix s res s'
    assume a: "child_loop (Suc k) f endp acc s = Some (res, s')"
    show "st_rel s s'"
    proof (cases "f False s")
      case None
      with a show ?thesis
        by (auto split: if_splits prod.splits sum.splits)
    next
      case (Some p)
      obtain x s1 where p: "p = (x, s1)" by (cases p)
      have r1: "st_rel s s1" using assms Some p by (auto dest: ppresD)
      have ih: "\<And>acc' r. child_loop k f endp acc' s1 = Some (r, s') \<Longrightarrow> st_rel s1 s'"
        using Suc.IH by (auto dest: ppresD)
      show ?thesis
        using a Some p r1 ih
        by (auto simp: Let_def split: if_splits prod.splits sum.splits intro: st_rel_trans)
    qed
  qed
qed

lemma ppres_template_children_loop [ppres_intros]:
  assumes "\<And>e. ppres (f e)"
  shows "ppres (template_children_loop k f endp acc)"
proof (induction k arbitrary: acc)
  case 0
  show ?case by (simp add: ppres_def)
next
  case (Suc k)
  show ?case
    unfolding ppres_def
  proof (intro allI impI)
    fix s res s'
    assume a: "template_children_loop (Suc k) f endp acc s = Some (res, s')"
    show "st_rel s s'"
    proof (cases "f False s")
      case None
      with a show ?thesis
        by (auto split: if_splits prod.splits sum.splits)
    next
      case (Some p)
      obtain x s1 where p: "p = (x, s1)" by (cases p)
      have r1: "st_rel s s1" using assms Some p by (auto dest: ppresD)
      have ih: "\<And>acc' r. template_children_loop k f endp acc' s1 = Some (r, s') \<Longrightarrow> st_rel s1 s'"
        using Suc.IH by (auto dest: ppresD)
      show ?thesis
        using a Some p r1 ih
        by (auto simp: Let_def split: if_splits prod.splits sum.splits intro: st_rel_trans)
    qed
  qed
qed

lemma ppres_phase1_loop [ppres_intros]:
  assumes "\<And>e. ppres (f e)"
  shows "ppres (phase1_loop k f endp acc)"
proof (induction k arbitrary: acc)
  case 0
  show ?case by (simp add: ppres_def)
next
  case (Suc k)
  show ?case
    unfolding ppres_def
  proof (intro allI impI)
    fix s res s'
    assume a: "phase1_loop (Suc k) f endp acc s = Some (res, s')"
    show "st_rel s s'"
    proof (cases "f False s")
      case None
      with a show ?thesis
        by (auto split: if_splits prod.splits sum.splits)
    next
      case (Some p)
      obtain x s1 where p: "p = (x, s1)" by (cases p)
      have r1: "st_rel s s1" using assms Some p by (auto dest: ppresD)
      have ih: "\<And>acc' r. phase1_loop k f endp acc' s1 = Some (r, s') \<Longrightarrow> st_rel s1 s'"
        using Suc.IH by (auto dest: ppresD)
      show ?thesis
        using a Some p r1 ih
        by (auto simp: Let_def split: if_splits prod.splits sum.splits intro: st_rel_trans)
    qed
  qed
qed

lemma ppres_embedded_loop [ppres_intros]:
  assumes "\<And>e. ppres (f e)"
  shows "ppres (embedded_loop k f endp acc)"
proof (induction k arbitrary: acc)
  case 0
  show ?case by (simp add: ppres_def)
next
  case (Suc k)
  show ?case
    unfolding ppres_def
  proof (intro allI impI)
    fix s res s'
    assume a: "embedded_loop (Suc k) f endp acc s = Some (res, s')"
    show "st_rel s s'"
    proof (cases "f True s")
      case None
      with a show ?thesis
        by (auto split: if_splits prod.splits sum.splits)
    next
      case (Some p)
      obtain x s1 where p: "p = (x, s1)" by (cases p)
      have r1: "st_rel s s1" using assms Some p by (auto dest: ppresD)
      have ih: "\<And>acc' r. embedded_loop k f endp acc' s1 = Some (r, s') \<Longrightarrow> st_rel s1 s'"
        using Suc.IH by (auto dest: ppresD)
      show ?thesis
        using a Some p r1 ih
        by (auto simp: Let_def split: if_splits prod.splits sum.splits intro: st_rel_trans)
    qed
  qed
qed

lemma ppres_close_element [ppres_intros]: "(\<And>e. ppres (f e)) \<Longrightarrow> ppres (close_element f endp cs)"
  unfolding close_element_def by (intro ppres_intros rpres_intros)

lemma ppres_parse_content [ppres_intros]: "(\<And>e. ppres (f e)) \<Longrightarrow> ppres (parse_content k f endp)"
  unfolding parse_content_def by (intro ppres_intros rpres_intros)

lemma ppres_read_internal_structure [ppres_intros]:
  "(\<And>e. ppres (f e)) \<Longrightarrow> ppres (read_internal_structure k f tgl ns sz)"
  unfolding read_internal_structure_def Let_def by (intro ppres_intros rpres_intros)

lemma ppres_OpenStartElementNode_ctor [ppres_intros]:
  "(\<And>e. ppres (f e)) \<Longrightarrow> ppres (OpenStartElementNode_ctor k f t)"
  unfolding OpenStartElementNode_ctor_def by (intro ppres_intros rpres_intros)

lemma ppres_parseChildren [ppres_intros]: "(\<And>e. ppres (f e)) \<Longrightarrow> ppres (parseChildren k f a d)"
  unfolding parseChildren_def by (intro ppres_intros rpres_intros)

lemma ppres_TemplateNode_ctor [ppres_intros]: "(\<And>e. ppres (f e)) \<Longrightarrow> ppres (TemplateNode_ctor k f off)"
  unfolding TemplateNode_ctor_def by (intro ppres_intros rpres_intros)

text \<open>\<open>addTemplate\<close> leaves the chunk's reader where it is.\<close>

lemma cpres_addTemplate [ppres_intros]:
  assumes "\<And>e. ppres (f e)"
  shows "cpres (addTemplate k f off)"
  unfolding cpres_def
proof (intro allI impI)
  fix ch res ch'
  assume a: "addTemplate k f off ch = Some (res, ch')"
  show "same_frame ch ch'"
  proof (cases "template_cache ch off")
    case (Some t)
    with a show ?thesis by (simp add: addTemplate_def)
  next
    case None
    with a obtain x c1 ch1 where t: "TemplateNode_ctor k f off (cloned_reader ch, ch) = Some (x, (c1, ch1))"
      by (auto simp: addTemplate_def split: option.splits prod.splits sum.splits)
    have "st_rel (cloned_reader ch, ch) (c1, ch1)"
      using ppres_TemplateNode_ctor [of f, OF assms] t by (rule ppresD)
    then have "same_frame ch ch1" by (simp add: st_rel_def)
    then show ?thesis
      using a None t
      by (auto simp: addTemplate_def same_frame_def split: sum.splits)
  qed
qed

lemma ppres_TemplateInstanceNode_ctor [ppres_intros]:
  "(\<And>e. ppres (f e)) \<Longrightarrow> ppres (TemplateInstanceNode_ctor k f e t)"
  unfolding TemplateInstanceNode_ctor_def by (intro ppres_intros rpres_intros)

lemma ppres_fromStream [ppres_intros]: "ppres (fromStream tza n e)"
proof (induction n arbitrary: e)
  case 0
  show ?case by (simp add: ppres_def)
next
  case (Suc n)
  have "ppres (xbind (liftR u8) (\<lambda>token.
       if token AND 0x0F = 0x0f then StartOfStreamNode_ctor token
       else if token AND 0x0F = 0x00 then xreturn (EndOfStreamNode token)
       else if token AND 0x0F = 0x01 then OpenStartElementNode_ctor n (fromStream tza n) token
       else if token AND 0x0F = 0x02 then xreturn (CloseStartElementNode token)
       else if token AND 0x0F = 0x03 then xreturn (CloseEmptyElementNode token)
       else if token AND 0x0F = 0x04 then xreturn (CloseElementNode token)
       else if token AND 0x0F = 0x05 then ValueTextNode_ctor tza token
       else if token AND 0x0F = 0x06 then AttributeNode_ctor n (fromStream tza n) token
       else if token AND 0x0F = 0x07 then CDataSectionNode_ctor token
       else if token AND 0x0F = 0x08 then CharacterReferenceNode_ctor token
       else if token AND 0x0F = 0x09 then EntityReferenceNode_ctor token
       else if token AND 0x0F = 0x0a then ProcessingInstructionTargetNode_ctor token
       else if token AND 0x0F = 0x0b then ProcessingInstructionDataNode_ctor token
       else if token AND 0x0F = 0x0c
         then TemplateInstanceNode_ctor n (fromStream tza n) e token
       else if token AND 0x0F = 0x0d then NormalSubstitutionNode_ctor token
       else if token AND 0x0F = 0x0e then OptionalSubstitutionNode_ctor token
       else xreturn (UnimplementedNode token)))"
    by (intro ppres_intros rpres_intros Suc.IH)
  then show ?case
    by (simp add: ppres_def)
qed

lemma ppres_RootNode_ctor: "(\<And>e. ppres (f e)) \<Longrightarrow> ppres (RootNode_ctor tza k f off)"
  unfolding RootNode_ctor_def Let_def by (intro ppres_intros rpres_intros)

subsection \<open>Embedded BXML: where the token loop stops and where the header is\<close>

lemma declared_sum_simps [simp]:
  "declared_sum [] = 0"
  "declared_sum (n # ns) = (if is_EndOfStreamNode n then 0 else node_length n) + declared_sum ns"
  by (simp_all add: declared_sum_def)

lemma embedded_loop_result:
  assumes "embedded_loop k f limit (ns0, d0, t0) s = Some (Inr (ns, d, t), s')"
  shows "\<exists>new. ns = ns0 @ new
       \<and> d = d0 + declared_sum new
       \<and> (\<forall>n \<in> set (butlast new). \<not> is_TemplateInstanceNode n \<and> \<not> is_EndOfStreamNode n)
       \<and> t = (if new \<noteq> [] \<and> is_TemplateInstanceNode (last new) then Some (last new) else t0)
       \<and> (new \<noteq> [] \<and> is_TemplateInstanceNode (last new)
            \<longrightarrow> (\<exists>sb. f True sb = Some (Inr (last new), s')))"
  using assms
proof (induction k arbitrary: ns0 d0 t0 s)
  case 0
  then show ?case by simp
next
  case (Suc k)
  show ?case
  proof (cases "tell (fst s) < limit")
    case False
    with Suc.prems have "ns = ns0" "d = d0" "t = t0" by simp_all
    then show ?thesis by (intro exI [of _ "[]"]) simp
  next
    case True
    show ?thesis
    proof (cases "f True s")
      case None
      with Suc.prems True show ?thesis by simp
    next
      case (Some p)
      obtain x s1 where p: "p = (x, s1)" by (cases p)
      show ?thesis
      proof (cases x)
        case (Inl e)
        with Suc.prems True Some p have "ns = ns0" "d = d0" "t = t0" by simp_all
        then show ?thesis by (intro exI [of _ "[]"]) simp
      next
        case (Inr node)
        let ?d' = "if \<not> is_EndOfStreamNode node then d0 + node_length node else d0"
        let ?t' = "if is_TemplateInstanceNode node then Some node else t0"
        show ?thesis
        proof (cases "is_TemplateInstanceNode node \<or> is_EndOfStreamNode node
                      \<or> tell (fst s1) \<le> tell (fst s)")
          case stop: True
          have fs: "f True s = Some (Inr node, s1)" using Some p Inr by simp
          from Suc.prems True fs stop
          have r: "ns = ns0 @ [node]" "d = ?d'" "t = ?t'" "s' = s1"
            by (auto simp: Let_def split: if_splits)
          show ?thesis
          proof (intro exI [of _ "[node]"] conjI)
            show "ns = ns0 @ [node]" using r by simp
            show "d = d0 + declared_sum [node]" using r by simp
            show "\<forall>n \<in> set (butlast [node]). \<not> is_TemplateInstanceNode n \<and> \<not> is_EndOfStreamNode n"
              by simp
            show "t = (if [node] \<noteq> [] \<and> is_TemplateInstanceNode (last [node])
                       then Some (last [node]) else t0)"
              using r by simp
            show "[node] \<noteq> [] \<and> is_TemplateInstanceNode (last [node])
                \<longrightarrow> (\<exists>sb. f True sb = Some (Inr (last [node]), s'))"
              using fs r by (metis last.simps)
          qed
        next
          case cont: False
          with Suc.prems True Some p Inr
          have "embedded_loop k f limit (ns0 @ [node], ?d', ?t') s1 = Some (Inr (ns, d, t), s')"
            by (simp add: Let_def)
          from Suc.IH [OF this] obtain new where
            n1: "ns = (ns0 @ [node]) @ new" and n2: "d = ?d' + declared_sum new"
            and n3: "\<forall>n \<in> set (butlast new). \<not> is_TemplateInstanceNode n \<and> \<not> is_EndOfStreamNode n"
            and n4: "t = (if new \<noteq> [] \<and> is_TemplateInstanceNode (last new) then Some (last new) else ?t')"
            and n5: "new \<noteq> [] \<and> is_TemplateInstanceNode (last new)
                \<longrightarrow> (\<exists>sb. f True sb = Some (Inr (last new), s'))"
            by blast
          show ?thesis
          proof (intro exI [of _ "node # new"] conjI)
            show "ns = ns0 @ node # new" using n1 by simp
            show "d = d0 + declared_sum (node # new)" using n2 cont by simp
            show "\<forall>n \<in> set (butlast (node # new)). \<not> is_TemplateInstanceNode n \<and> \<not> is_EndOfStreamNode n"
              using n3 cont by auto
            show "t = (if node # new \<noteq> [] \<and> is_TemplateInstanceNode (last (node # new))
                       then Some (last (node # new)) else t0)"
              using n4 cont by auto
            show "node # new \<noteq> [] \<and> is_TemplateInstanceNode (last (node # new))
                \<longrightarrow> (\<exists>sb. f True sb = Some (Inr (last (node # new)), s'))"
              using n5 cont by auto
          qed
        qed
      qed
    qed
  qed
qed

subsection \<open>Top-level substitutions: offset, count and declarations\<close>

lemma phase1_loop_sum:
  assumes "phase1_loop k f endp (cs0, l0, t0) s = Some (Inr (cs, l, t), s')"
  shows "\<exists>new. cs = cs0 @ new \<and> l = l0 + sum_list (map node_length new)"
  using assms
proof (induction k arbitrary: cs0 l0 t0 s)
  case 0
  then show ?case by simp
next
  case (Suc k)
  show ?case
  proof (cases "tell (fst s) < endp \<and> \<not> tell (fst s) \<ge> rsize (fst s)")
    case False
    with Suc.prems have "cs = cs0" "l = l0" by (auto split: if_splits)
    then show ?thesis by simp
  next
    case True
    obtain pr pr' where pk: "peek (fst s) = (pr, pr')" by (cases "peek (fst s)")
    show ?thesis
    proof (cases pr)
      case (Inl e)
      with Suc.prems True pk show ?thesis by simp
    next
      case (Inr tok)
      show ?thesis
      proof (cases "tok = 0")
        case True
        with Suc.prems \<open>tell (fst s) < endp \<and> \<not> tell (fst s) \<ge> rsize (fst s)\<close> pk Inr
        have "cs = cs0" "l = l0" by simp_all
        then show ?thesis by simp
      next
        case nz: False
        show ?thesis
        proof (cases "f False s")
          case None
          with Suc.prems True pk Inr nz show ?thesis by simp
        next
          case (Some p)
          obtain x s1 where p: "p = (x, s1)" by (cases p)
          show ?thesis
          proof (cases x)
            case (Inl e)
            with Suc.prems True pk Inr nz Some p have "cs = cs0" "l = l0" by simp_all
            then show ?thesis by simp
          next
            case (Inr node)
            let ?t' = "if is_TemplateInstanceNode node then Some node else t0"
            show ?thesis
            proof (cases "is_UnimplementedNode node")
              case True
              with Suc.prems \<open>tell (fst s) < endp \<and> \<not> tell (fst s) \<ge> rsize (fst s)\<close>
                pk \<open>pr = Inr tok\<close> nz Some p Inr
              have "cs = cs0 @ [node]" "l = l0 + node_length node" by (simp_all add: Let_def)
              then show ?thesis by simp
            next
              case False
              with Suc.prems True pk \<open>pr = Inr tok\<close> nz Some p Inr
              have "phase1_loop k f endp (cs0 @ [node], l0 + node_length node, ?t') s1
                    = Some (Inr (cs, l, t), s')"
                by (auto simp: Let_def split: if_splits)
              from Suc.IH [OF this] obtain new where
                "cs = (cs0 @ [node]) @ new" "l = l0 + node_length node + sum_list (map node_length new)"
                by blast
              then show ?thesis by (intro exI [of _ "node # new"]) simp
            qed
          qed
        qed
      qed
    qed
  qed
qed

lemma rsize_position [simp]: "rsize (r\<lparr>position := p\<rparr>) = rsize r"
  by (simp add: rsize_def)

lemma byteAt_position [simp]: "byteAt (r\<lparr>position := p\<rparr>) = byteAt r"
  by (simp add: byteAt_def fun_eq_iff)

lemma decl_at_position [simp]: "decl_at (r\<lparr>position := q\<rparr>) = decl_at r"
  by (simp add: decl_at_def fun_eq_iff)

lemma decl_at_shift: "decl_at r (p + 4) i = decl_at r p (Suc i)"
  by (simp add: decl_at_def algebra_simps)

lemma read_one_declaration:
  assumes "position r = p" and "0 \<le> p" and "p + 4 \<le> rsize r"
  shows "rbind u16le (\<lambda>size. rbind u8 (\<lambda>type. rbind u8 (\<lambda>reserved.
           rreturn \<lparr>dsize = size, dtype = type\<rparr>))) r
         = (Inr (decl_at r p 0), r\<lparr>position := p + 4\<rparr>)"
  using assms
  by (simp add: rbind_def rreturn_def u16le_def u8_def advance_def u16leAt_def u8At_def
      checkBounds_def decl_at_def)

lemma read_declarations_full:
  assumes "position r = p" and "0 \<le> p" and "p + 4 * int n \<le> rsize r"
  shows "read_declarations n r
         = (Inr (map (decl_at r p) [0..<n]), r\<lparr>position := p + 4 * int n\<rparr>)"
  using assms
proof (induction n arbitrary: r p)
  case 0
  then show ?case by simp
next
  case (Suc n)
  have one: "rbind u16le (\<lambda>size. rbind u8 (\<lambda>type. rbind u8 (\<lambda>reserved.
           rreturn \<lparr>dsize = size, dtype = type\<rparr>))) r
         = (Inr (decl_at r p 0), r\<lparr>position := p + 4\<rparr>)"
    using Suc.prems by (intro read_one_declaration) simp_all
  have ih: "read_declarations n (r\<lparr>position := p + 4\<rparr>)
         = (Inr (map (decl_at (r\<lparr>position := p + 4\<rparr>) (p + 4)) [0..<n]),
            r\<lparr>position := p + 4, position := p + 4 + 4 * int n\<rparr>)"
    using Suc.prems by (intro Suc.IH) (simp_all add: rsize_def)
  have m: "map (decl_at r p) [0..<Suc n] = decl_at r p 0 # map (decl_at r (p + 4)) [0..<n]"
    by (simp add: upt_conv_Cons map_Suc_upt [symmetric] decl_at_shift del: upt_Suc)
  have g: "tell r + 4 \<le> rsize r" using Suc.prems by (simp add: tell_def)
  show ?case
    using g by (simp add: one ih m del: upt_Suc)
qed

lemma read_substitutionCount_eq:
  assumes "position r = off" and "u32leAt r off = Inr le" and "u32beAt r off = Inr be"
  shows "read_substitutionCount r
         = (Inr (if be > 0 \<and> be < 1024 then be else le), r\<lparr>position := off + 4\<rparr>)"
proof -
  have b: "0 \<le> off \<and> off + 4 \<le> rsize r"
    using assms(2) by (auto simp: u32leAt_def checkBounds_def split: if_splits)
  have "u32beAt (r\<lparr>position := off\<rparr>) off = Inr be"
    using assms(3) by (auto simp: u32beAt_def checkBounds_def rsize_def split: if_splits)
  then show ?thesis
    using assms b
    by (simp add: read_substitutionCount_def Let_def rbind_def rreturn_def u32le_def u32be_def
        advance_def seek_def tell_def)
qed

text \<open>A little-endian count between 1 and 1023 is never overridden by the big-endian one.\<close>

lemma small_little_endian_count_is_used:
  assumes "u32leAt r off = Inr le" and "u32beAt r off = Inr be" and "0 < le" and "le < 1024"
  shows "(if be > 0 \<and> be < 1024 then be else le) = le"
proof -
  have rng: "\<And>i. 0 \<le> byteAt r i \<and> byteAt r i < 256" by (rule byteAt_range)
  have le: "le = byteAt r off + 256 * byteAt r (off + 1) + 65536 * byteAt r (off + 2)
       + 16777216 * byteAt r (off + 3)"
    using assms(1) by (auto simp: u32leAt_def getUint32le_def split: sum.splits)
  have be: "be = 16777216 * byteAt r off + 65536 * byteAt r (off + 1)
       + 256 * byteAt r (off + 2) + byteAt r (off + 3)"
    using assms(2) by (auto simp: u32beAt_def split: sum.splits)
  have "byteAt r (off + 2) = 0 \<and> byteAt r (off + 3) = 0"
    using le assms(4) rng [of off] rng [of "off + 1"] rng [of "off + 2"] rng [of "off + 3"]
    by arith
  moreover then have "byteAt r off > 0 \<or> byteAt r (off + 1) > 0"
    using le assms(3) rng [of off] rng [of "off + 1"] by arith
  ultimately have "be \<ge> 65536"
    using be rng [of off] rng [of "off + 1"] by arith
  then show ?thesis by simp
qed

lemma u32beAt_buffer: "buffer r' = buffer r \<Longrightarrow> u32beAt r' off = u32beAt r off"
  by (simp add: u32beAt_def checkBounds_def rsize_def byteAt_def)

lemma rootPhase2_eq:
  assumes "off = st + len - 1"
    and "u32leAt r off = Inr le" and "u32beAt r off = Inr be"
    and "c = (if be > 0 \<and> be < 1024 then be else le)"
    and "0 < c" and "c < 1024" and "off + 4 + 4 * c \<le> rsize r"
  shows "rootPhase2 tza st len r
         = (case read_values tza (map (decl_at r (off + 4)) [0..<nat c])
                   (r\<lparr>position := off + 4 + 4 * c\<rparr>) of
              (Inl e, r') \<Rightarrow> (Inl e, r')
            | (Inr vals, r') \<Rightarrow> (Inr (fst vals, 4 + 4 * c + snd vals), r'))"
proof -
  have b: "0 \<le> off \<and> off + 4 \<le> rsize r"
    using assms(2) by (auto simp: u32leAt_def checkBounds_def split: if_splits)
  have sk: "seek (st + len - 1) r = (Inr (), r\<lparr>position := off\<rparr>)"
    using b assms(1) by (simp add: seek_def)
  have cnt: "read_substitutionCount (r\<lparr>position := off\<rparr>)
        = (Inr c, r\<lparr>position := off + 4\<rparr>)"
    using read_substitutionCount_eq [of "r\<lparr>position := off\<rparr>" off le be] assms(2,3,4)
      u32leAt_buffer [of "r\<lparr>position := off\<rparr>" r] u32beAt_buffer [of "r\<lparr>position := off\<rparr>" r]
    by simp
  have dec: "read_declarations (nat c) (r\<lparr>position := off + 4\<rparr>)
        = (Inr (map (decl_at r (off + 4)) [0..<nat c]), r\<lparr>position := off + 4 + 4 * c\<rparr>)"
    using read_declarations_full [of "r\<lparr>position := off + 4\<rparr>" "off + 4" "nat c"] b assms(5,7)
    by simp
  show ?thesis
    using b assms(5,6)
    by (simp add: rootPhase2_def rbind_def sk cnt dec tell_def rreturn_def
        split: prod.splits sum.splits)
qed

text \<open>
  C1. Top-level substitution decoding. When \<open>RootNode\<close> is built, Phase 2 starts at
  \<open>off = record_data_start + (sum of the declared lengths of the children) - 1\<close>. Both
  byte orders of the \<open>u32\<close> at \<open>off\<close> are read; the count \<open>c\<close> is the big-endian value when
  that is between 1 and 1023, and the little-endian value otherwise. When \<open>0 < c < 1024\<close>
  and the \<open>c\<close> declarations fit in the buffer, the declarations are the \<open>c\<close> entries
  \<open>(size u16, type u8, reserved u8)\<close> at \<open>off + 4\<close>, and the substitutions are the values
  decoded from \<open>off + 4 + 4 * c\<close> on, one per declaration.
\<close>

theorem root_substitution_header:
  assumes "RootNode_ctor tza k (fromStream tza m) recordOffset (r, ch) = Some (Inr root, (r', ch'))"
    and "off = recordOffset + 0x18 + sum_list (map node_length (rn_children root)) - 1"
    and "u32leAt r off = Inr le" and "u32beAt r off = Inr be"
    and "c = (if be > 0 \<and> be < 1024 then be else le)"
    and "0 < c" and "c < 1024" and "off + 4 + 4 * c \<le> rsize r"
  shows "rn_parsedBxmlChildrenLength root = sum_list (map node_length (rn_children root))
       \<and> read_values tza (map (decl_at r (off + 4)) [0..<nat c]) (r\<lparr>position := off + 4 + 4 * c\<rparr>)
           = (Inr (rn_substitutions root, rn_substitutionsBlockLength root - 4 - 4 * c), r')"
proof -
  let ?st = "recordOffset + 0x18"
  from assms(1) obtain r0 where sk: "seek ?st r = (Inr (), r0)"
    by (auto simp: RootNode_ctor_def Let_def xbind_Some_Inr liftR_Some)
  then have r0: "r0 = r\<lparr>position := ?st\<rparr>" by (rule seek_Inr)
  from assms(1) sk obtain recordSize where rs: "u32leAt r0 (recordOffset + 4) = Inr recordSize"
    by (auto simp: RootNode_ctor_def Let_def xbind_Some_Inr liftR_Some)
  from assms(1) sk rs obtain acc s1 where
    p1: "phase1_loop k (fromStream tza m) (?st + (recordSize - 0x18)) ([], 0, None) (r0, ch)
         = Some (Inr acc, s1)"
    and rest: "xbind (liftR (rootPhase2 tza ?st (fst (snd acc)))) (\<lambda>subs.
         xreturn \<lparr>rn_children = fst acc, rn_substitutions = fst subs,
                   rn_parsedBxmlChildrenLength = fst (snd acc),
                   rn_substitutionsBlockLength = snd subs,
                   rn_templateInstance = snd (snd acc)\<rparr>) s1 = Some (Inr root, (r', ch'))"
    by (auto simp: RootNode_ctor_def Let_def xbind_Some_Inr liftR_Some)
  obtain r1 ch1 where s1: "s1 = (r1, ch1)" by (cases s1)
  obtain cs l t where acc: "acc = (cs, l, t)" by (cases acc)
  from rest s1 obtain subs where
    p2: "rootPhase2 tza ?st (fst (snd acc)) r1 = (Inr subs, r')"
    and root: "root = \<lparr>rn_children = fst acc, rn_substitutions = fst subs,
                   rn_parsedBxmlChildrenLength = fst (snd acc),
                   rn_substitutionsBlockLength = snd subs,
                   rn_templateInstance = snd (snd acc)\<rparr>"
    by (auto simp: xbind_Some_Inr liftR_Some xreturn_def)
  have "st_rel (r0, ch) (r1, ch1)"
    using ppresD [OF ppres_phase1_loop [of "fromStream tza m", OF ppres_fromStream] p1 [unfolded s1]] .
  then have buf: "buffer r1 = buffer r" using r0 by (simp add: st_rel_def)
  from phase1_loop_sum [OF p1 [unfolded acc]] have sum: "l = sum_list (map node_length cs)"
    by auto
  have len: "rn_parsedBxmlChildrenLength root = sum_list (map node_length (rn_children root))"
    using root acc sum by simp
  have off: "off = ?st + fst (snd acc) - 1"
    using assms(2) root acc sum by simp
  have eq1: "u32leAt r1 off = Inr le" "u32beAt r1 off = Inr be" "rsize r1 = rsize r"
    using assms(3,4) u32leAt_buffer [OF buf] u32beAt_buffer [OF buf] buf by (simp_all add: rsize_def)
  have eq2: "decl_at r1 = decl_at r"
    using buf by (simp add: decl_at_def byteAt_def fun_eq_iff)
  have eq3: "r1\<lparr>position := off + 4 + 4 * c\<rparr> = r\<lparr>position := off + 4 + 4 * c\<rparr>"
    using buf by simp
  have "rootPhase2 tza ?st (fst (snd acc)) r1
         = (case read_values tza (map (decl_at r1 (off + 4)) [0..<nat c])
                   (r1\<lparr>position := off + 4 + 4 * c\<rparr>) of
              (Inl e, r') \<Rightarrow> (Inl e, r')
            | (Inr vals, r') \<Rightarrow> (Inr (fst vals, 4 + 4 * c + snd vals), r'))"
    using off eq1 assms(5,6,7,8) by (intro rootPhase2_eq [where le = le and be = be]) simp_all
  with p2 have "read_values tza (map (decl_at r (off + 4)) [0..<nat c]) (r\<lparr>position := off + 4 + 4 * c\<rparr>)
           = (Inr (fst subs, snd subs - 4 - 4 * c), r')"
    by (auto simp: eq2 eq3 split: prod.splits sum.splits)
  then show ?thesis using len root by simp
qed

lemma read_declarations_two: "read_declarations 2 = read_declarations (Suc (Suc 0))"
  by (simp add: numeral_2_eq_2)

lemma root_eval:
  "RootNode_ctor (\<lambda>t. 0) (Suc (Suc (Suc (Suc 0)))) (fromStream (\<lambda>t. 0) (Suc 0)) 0
     (\<lparr>buffer = root_bytes, position = 0\<rparr>, chunk_of root_bytes)
   = Some (Inr \<lparr>rn_children = [StartOfStreamNode 15 1 1,
                                  TemplateInstanceNode 12 1 16 0 0 False 28,
                                  CloseStartElementNode 2],
                   rn_substitutions = [VNum 7, VNum 12345],
                   rn_parsedBxmlChildrenLength = 15,
                   rn_substitutionsBlockLength = 15,
                   rn_templateInstance = Some (TemplateInstanceNode 12 1 16 0 0 False 28)\<rparr>,
           (\<lparr>buffer = root_bytes, position = 53\<rparr>, chunk_of root_bytes))"
  by (simp add: RootNode_ctor_def rootPhase2_def read_substitutionCount_def read_declarations_two
      root_bytes_def chunk_of_def
      xbind_def xreturn_def xcatch_def liftR_def liftC_def reader_simps
      StartOfStreamNode_ctor_def TemplateInstanceNode_ctor_def get_tell_def get_chunk_offset_def
      is_TemplateInstanceNode_def is_EndOfStreamNode_def is_UnimplementedNode_def
      parse_def parse_switch_def fixed_def Let_def)

theorem root_substitution_header_witness:
  "rn_parsedBxmlChildrenLength
      \<lparr>rn_children = [StartOfStreamNode 15 1 1,
                      TemplateInstanceNode 12 1 16 0 0 False 28,
                      CloseStartElementNode 2],
       rn_substitutions = [VNum 7, VNum 12345],
       rn_parsedBxmlChildrenLength = 15,
       rn_substitutionsBlockLength = 15,
       rn_templateInstance = Some (TemplateInstanceNode 12 1 16 0 0 False 28)\<rparr> = 15
   \<and> read_values (\<lambda>t. 0) [\<lparr>dsize = 1, dtype = 4\<rparr>, \<lparr>dsize = 2, dtype = 6\<rparr>]
         \<lparr>buffer = root_bytes, position = 50\<rparr>
       = (Inr ([VNum 7, VNum 12345], 3), \<lparr>buffer = root_bytes, position = 53\<rparr>)"
  using root_substitution_header [OF root_eval, of 38 2 33554432 2]
  by (simp add: root_bytes_def reader_simps decl_at_def upt_rec)

text \<open>
  The count is not always the little-endian value: here the little-endian \<open>u32\<close> at the
  substitution offset is 16777216, and one declaration and one value are read.
\<close>

theorem big_endian_count_is_used:
  "RootNode_ctor (\<lambda>t. 0) (Suc (Suc (Suc 0))) (fromStream (\<lambda>t. 0) (Suc 0)) 0
     (\<lparr>buffer = be_count_bytes, position = 0\<rparr>, chunk_of be_count_bytes)
   = Some (Inr \<lparr>rn_children = [StartOfStreamNode 15 1 1,
                                  TemplateInstanceNode 12 1 16 0 0 False 28],
                   rn_substitutions = [VNum 12345],
                   rn_parsedBxmlChildrenLength = 14,
                   rn_substitutionsBlockLength = 10,
                   rn_templateInstance = Some (TemplateInstanceNode 12 1 16 0 0 False 28)\<rparr>,
           (\<lparr>buffer = be_count_bytes, position = 47\<rparr>, chunk_of be_count_bytes))
   \<and> u32leAt \<lparr>buffer = be_count_bytes, position = 0\<rparr> (0 + 0x18 + 14 - 1) = Inr 16777216"
  by (simp add: RootNode_ctor_def rootPhase2_def read_substitutionCount_def
      be_count_bytes_def chunk_of_def
      xbind_def xreturn_def xcatch_def liftR_def liftC_def reader_simps
      StartOfStreamNode_ctor_def TemplateInstanceNode_ctor_def get_tell_def get_chunk_offset_def
      is_TemplateInstanceNode_def is_EndOfStreamNode_def is_UnimplementedNode_def
      parse_def parse_switch_def fixed_def Let_def)

subsection \<open>Interning lookups and the position of the chunk reader\<close>

text \<open>\<open>addString\<close> and \<open>addTemplate\<close> parse on a clone: the chunk's reader keeps its position.\<close>

lemma addString_keeps_position:
  assumes "addString k off ch = Some (res, ch')"
  shows "r_position ch' = r_position ch"
  using cpres_addString assms unfolding cpres_def same_frame_def by blast

lemma addTemplate_keeps_position:
  assumes "addTemplate k (fromStream tza m) off ch = Some (res, ch')"
  shows "r_position ch' = r_position ch"
  using cpres_addTemplate [of "fromStream tza m", OF ppres_fromStream] assms
  unfolding cpres_def same_frame_def by blast

text \<open>A cached template is returned without touching the reader.\<close>

lemma getTemplate_cached:
  assumes "template_cache ch off = Some t"
  shows "getTemplate k f off ch = Some (Some t, ch)"
  using assms by (simp add: getTemplate_def)

text \<open>
  C4. Frame property of interning lookups. \<open>getTemplate\<close> on a template that is not cached
  builds the \<open>TemplateNode\<close> on the chunk's own reader: the lookup at offset 8 moves that
  reader from position 3 to position 32, the end of the template header.
\<close>

theorem getTemplate_moves_the_chunk_reader:
  "r_position template_chunk = 3
   \<and> getTemplate 0 (fromStream (\<lambda>t. 0) 0) 8 template_chunk
     = Some (Some \<lparr>tn_offset = 8, tn_nextOffset = 0, tn_templateId = 16,
                     tn_guid = [0x10, 0, 0, 0, 0, 0, 0, 0, 0, 0, 0, 0, 0, 0, 0, 0],
                     tn_dataLength = 0, tn_children = []\<rparr>,
             template_chunk
               \<lparr>r_position := 32,
                template_cache := [8 \<mapsto> \<lparr>tn_offset = 8, tn_nextOffset = 0, tn_templateId = 16,
                     tn_guid = [0x10, 0, 0, 0, 0, 0, 0, 0, 0, 0, 0, 0, 0, 0, 0, 0],
                     tn_dataLength = 0, tn_children = []\<rparr>]\<rparr>)"
  by (simp add: getTemplate_def template_chunk_def TemplateNode_ctor_def parseChildren_def
      chunk_reader_def xbind_def xreturn_def liftR_def get_chunk_offset_def get_rsize_def
      get_tell_def reader_simps)

subsection \<open>Message arguments from the layout\<close>

lemma sub_arg_simps [simp]:
  "sub_arg host subs (Sub idx) = formatForMessage host (substitution_at subs idx)"
  "sub_arg host subs (Lit t) = Inr t"
  by (simp_all add: sub_arg_def)

lemma is_sub_simps [simp]: "is_sub (Sub idx) = True" "is_sub (Lit t) = False"
  by (simp_all add: is_sub_def)

lemma take_exact:
  assumes "int (length out) < m" and "m \<le> int (length out) + 1"
  shows "take (nat m) (out @ s # rest) = out @ [s]"
proof -
  have "nat m = Suc (length out)" using assms by linarith
  then show ?thesis by simp
qed

lemma reached_None [simp]: "reached None out = False" "reached (Some 0) out = False"
  by (simp_all add: reached_def)

lemma sub_parts_loop_unbounded:
  assumes "mx = None \<or> mx = Some 0"
  shows "sub_parts_loop host subs mx ps out
         = (case traverse (sub_arg host subs) (filter is_sub ps) of
              Inl e \<Rightarrow> Inl e
            | Inr ss \<Rightarrow> Inr (Continue (out @ ss)))"
  using assms
proof (induction ps arbitrary: out)
  case Nil
  show ?case by simp
next
  case (Cons p ps)
  show ?case
  proof (cases p)
    case (Lit t)
    then show ?thesis using Cons by simp
  next
    case (Sub idx)
    then show ?thesis using Cons
      by (auto simp: Let_def split: sum.splits)
  qed
qed

lemma entries_loop_unbounded:
  assumes "mx = None \<or> mx = Some 0"
  shows "entries_loop host subs mx layout out
         = (case traverse (entry_args host subs) layout of
              Inl e \<Rightarrow> Inl e
            | Inr args \<Rightarrow> Inr (Continue (out @ concat args)))"
  using assms
proof (induction layout arbitrary: out)
  case Nil
  show ?case by simp
next
  case (Cons entry rest)
  show ?case
  proof (cases "list_ex is_sub (parts entry)")
    case True
    then show ?thesis
      using Cons sub_parts_loop_unbounded [OF Cons.prems, of host subs "parts entry" out]
      by (auto simp: entry_args_def split: sum.splits)
  next
    case False
    then show ?thesis using Cons
      by (auto simp: entry_args_def Let_def split: sum.splits)
  qed
qed

lemma slice0_take: "0 \<le> m \<Longrightarrow> slice0 xs m = take (nat m) xs"
  by (simp add: slice0_def)

lemma sub_parts_loop_bounded:
  assumes "0 < m" and "int (length out) < m"
    and "traverse (sub_arg host subs) (filter is_sub ps) = Inr ss"
  shows "sub_parts_loop host subs (Some m) ps out
         = Inr (if int (length (out @ ss)) \<ge> m then Return (take (nat m) (out @ ss))
                else Continue (out @ ss))"
  using assms
proof (induction ps arbitrary: out ss)
  case Nil
  then show ?case by simp
next
  case (Cons p ps)
  show ?case
  proof (cases p)
    case (Lit t)
    then show ?thesis using Cons by simp
  next
    case (Sub idx)
    with Cons.prems(3) obtain s ss' where
      s: "formatForMessage host (substitution_at subs idx) = Inr s"
      and ss': "traverse (sub_arg host subs) (filter is_sub ps) = Inr ss'"
      and ss: "ss = s # ss'"
      by (auto split: sum.splits)
    show ?thesis
    proof (cases "int (length (out @ [s])) \<ge> m")
      case True
      then have "take (nat m) (out @ ss) = out @ [s]"
        using Cons.prems(2) ss take_exact [of out m s ss'] by simp
      with True show ?thesis using Sub s ss Cons.prems(1,2)
        by (simp add: Let_def reached_def slice0_take)
    next
      case False
      then have lt: "int (length (out @ [s])) < m" by simp
      from Cons.IH [OF Cons.prems(1) lt ss'] False show ?thesis using Sub s ss
        by (simp add: Let_def reached_def)
    qed
  qed
qed

lemma entries_loop_bounded:
  assumes "0 < m" and "int (length out) < m"
    and "traverse (entry_args host subs) layout = Inr args"
  shows "entries_loop host subs (Some m) layout out
         = Inr (if int (length (out @ concat args)) \<ge> m
                then Return (take (nat m) (out @ concat args))
                else Continue (out @ concat args))"
  using assms
proof (induction layout arbitrary: out args)
  case Nil
  then show ?case by auto
next
  case (Cons entry rest)
  from Cons.prems(3) obtain a args' where
    a: "entry_args host subs entry = Inr a"
    and args': "traverse (entry_args host subs) rest = Inr args'"
    and args: "args = a # args'"
    by (auto split: sum.splits)
  show ?case
  proof (cases "list_ex is_sub (parts entry)")
    case True
    with a have tr: "traverse (sub_arg host subs) (filter is_sub (parts entry)) = Inr a"
      by (simp add: entry_args_def)
    note sp = sub_parts_loop_bounded [OF Cons.prems(1,2) tr]
    show ?thesis
    proof (cases "int (length (out @ a)) \<ge> m")
      case ge: True
      then have "take (nat m) (out @ concat args) = take (nat m) (out @ a)"
        using args by (simp add: nat_le_iff)
      with ge show ?thesis using True sp args by simp
    next
      case False
      then have lt: "int (length (out @ a)) < m" by simp
      from Cons.IH [OF Cons.prems(1) lt args'] False show ?thesis using True sp args
        by simp
    qed
  next
    case False
    with a have a': "a = [literal_text (parts entry)]"
      by (simp add: entry_args_def)
    show ?thesis
    proof (cases "int (length (out @ a)) \<ge> m")
      case ge: True
      then have "take (nat m) (out @ concat args) = out @ a"
        using args a' Cons.prems(2) take_exact [of out m "literal_text (parts entry)" "concat args'"]
        by simp
      with ge show ?thesis using False a' args Cons.prems(1,2)
        by (simp add: Let_def reached_def slice0_take)
    next
      case lt': False
      then have lt: "int (length (out @ a)) < m" by simp
      from Cons.IH [OF Cons.prems(1) lt args'] lt' show ?thesis using False a' args
        by (simp add: Let_def reached_def)
    qed
  qed
qed

text \<open>
  C8. \<open>buildArgsFromLayout\<close>. Without a maximum, and with the maximum 0, the result is the
  argument list of the layout: for an entry with a substitution reference one argument per
  reference, the formatted value (an array joined with \<open>', '\<close> into one argument, the empty
  string for an index out of range); for an entry of literal parts the joined literal text,
  empty or not. With a maximum \<open>m > 0\<close> the result is the first \<open>m\<close> of these arguments.
\<close>

theorem buildArgsFromLayout_args:
  "buildArgsFromLayout host layout subs None = layout_args host subs layout
   \<and> buildArgsFromLayout host layout subs (Some 0) = layout_args host subs layout
   \<and> (0 < m \<and> layout_args host subs layout = Inr args
        \<longrightarrow> buildArgsFromLayout host layout subs (Some m) = Inr (take (nat m) args))"
proof (intro conjI impI)
  show "buildArgsFromLayout host layout subs None = layout_args host subs layout"
    using entries_loop_unbounded [of None host subs layout "[]"]
    by (simp add: buildArgsFromLayout_def layout_args_def split: sum.splits)
  show "buildArgsFromLayout host layout subs (Some 0) = layout_args host subs layout"
    using entries_loop_unbounded [of "Some 0" host subs layout "[]"]
    by (simp add: buildArgsFromLayout_def layout_args_def split: sum.splits)
next
  assume a: "0 < m \<and> layout_args host subs layout = Inr args"
  then obtain as where as: "traverse (entry_args host subs) layout = Inr as" and args: "args = concat as"
    by (auto simp: layout_args_def split: sum.splits)
  from a have m: "0 < m" by simp
  have "entries_loop host subs (Some m) layout []
         = Inr (if int (length ([] @ concat as)) \<ge> m
                then Return (take (nat m) ([] @ concat as))
                else Continue ([] @ concat as))"
    using m as by (intro entries_loop_bounded) simp_all
  then show "buildArgsFromLayout host layout subs (Some m) = Inr (take (nat m) args)"
    using args m by (simp add: buildArgsFromLayout_def)
qed

lemma ascii_simps [simp]: "ascii [] = []" "ascii (c # cs) = of_char c # ascii cs"
  by (simp_all add: ascii_def)

theorem buildArgsFromLayout_args_witness:
  "buildArgsFromLayout (\<lambda>v. [])
      [\<lparr>entry_name = None, parts = [Sub 0, Lit (ascii '', ''), Sub 5]\<rparr>,
       \<lparr>entry_name = None, parts = [Lit (ascii ''x''), Lit (ascii ''y'')]\<rparr>,
       \<lparr>entry_name = None, parts = []\<rparr>]
      [VNum 42] None
     = Inr [ascii ''42'', [], ascii ''xy'', []]
   \<and> buildArgsFromLayout (\<lambda>v. [])
      [\<lparr>entry_name = None, parts = [Sub 0, Lit (ascii '', ''), Sub 5]\<rparr>,
       \<lparr>entry_name = None, parts = [Lit (ascii ''x''), Lit (ascii ''y'')]\<rparr>,
       \<lparr>entry_name = None, parts = []\<rparr>]
      [VNum 42] (Some 3)
     = Inr [ascii ''42'', [], ascii ''xy'']"
  using buildArgsFromLayout_args [of "\<lambda>v. []"
      "[\<lparr>entry_name = None, parts = [Sub 0, Lit (ascii '', ''), Sub 5]\<rparr>,
        \<lparr>entry_name = None, parts = [Lit (ascii ''x''), Lit (ascii ''y'')]\<rparr>,
        \<lparr>entry_name = None, parts = []\<rparr>]"
      "[VNum 42]" 3 "[ascii ''42'', [], ascii ''xy'', []]"]
  by (simp add: layout_args_def entry_args_def literal_text_def formatForMessage_def
      substitution_at_def string_of_int_def digits_of.simps digit_char_def)

text \<open>
  An array-valued substitution gives one argument, its elements joined with \<open>', '\<close>; and
  the maximum 0 does not truncate.
\<close>

theorem array_substitution_is_one_argument:
  "buildArgsFromLayout (\<lambda>v. []) [\<lparr>entry_name = None, parts = [Sub 0]\<rparr>]
      [VArr [ascii ''a'', ascii ''b'']] None
     = Inr [ascii ''a, b'']
   \<and> buildArgsFromLayout (\<lambda>v. []) [\<lparr>entry_name = None, parts = [Lit (ascii ''a'')]\<rparr>]
      [] (Some 0)
     = Inr [ascii ''a'']"
  by (simp add: buildArgsFromLayout_def formatForMessage_def substitution_at_def
      literal_text_def Let_def)

subsection \<open>Placeholder substitution\<close>

lemma percent_escapes_append:
  "37 \<notin> set xs \<Longrightarrow> percent_escapes ys \<Longrightarrow> percent_escapes (xs @ ys)"
  by (induction xs) auto

lemma percent_escapes_drop: "percent_escapes s \<Longrightarrow> percent_escapes (drop k s)"
proof (induction s arbitrary: k)
  case Nil
  show ?case by simp
next
  case (Cons c cs)
  show ?case
  proof (cases k)
    case 0
    with Cons.prems show ?thesis by simp
  next
    case (Suc j)
    with Cons show ?thesis by simp
  qed
qed

lemma arg_at_clean:
  assumes "\<forall>a \<in> set args. x \<notin> set a"
  shows "x \<notin> set (arg_at args i)"
  using assms by (simp add: arg_at_def)

text \<open>A pass whose matches start with \<open>%\<close> and whose replacements hold no \<open>%\<close>.\<close>

lemma replace_all_percent_escapes:
  assumes "percent_escapes s"
    and "\<forall>s r. m s = Some r \<longrightarrow> s \<noteq> [] \<and> hd s = 37"
    and "\<forall>s rep n. m s = Some (rep, n) \<longrightarrow> 37 \<notin> set rep"
  shows "percent_escapes (replace_all m s)"
  using assms
proof (induction m s rule: replace_all.induct)
  case (1 m)
  show ?case by simp
next
  case (2 m c cs)
  note starts = "2.prems"(2) and clean = "2.prems"(3)
  show ?case
  proof (cases "m (c # cs)")
    case None
    have pe: "percent_escapes cs" using "2.prems"(1) by simp
    have rest: "percent_escapes (replace_all m cs)"
      using "2.IH"(1) [OF None pe starts clean] .
    show ?thesis
    proof (cases "c = 37")
      case False
      with None rest show ?thesis by simp
    next
      case True
      with "2.prems"(1) obtain d ds where cs: "cs = d # ds" and d: "digit_unit d \<or> d = 110"
        by (auto split: list.splits)
      have "d \<noteq> 37" using d by (auto simp: digit_unit_def)
      then have "m (d # ds) = None" using starts by (cases "m (d # ds)") fastforce+
      then have "replace_all m cs = d # replace_all m ds" using cs by simp
      with None rest d show ?thesis by simp
    qed
  next
    case (Some r)
    obtain rep n where r: "r = (rep, n)" by (cases r)
    have pe: "percent_escapes (drop (n - 1) cs)"
      using "2.prems"(1) by (simp add: percent_escapes_drop)
    have "percent_escapes (replace_all m (drop (n - 1) cs))"
      using "2.IH"(2) [OF Some r [symmetric] pe starts clean] .
    moreover have "37 \<notin> set rep" using clean Some r by blast
    ultimately show ?thesis using Some r by (simp add: percent_escapes_append)
  qed
qed

lemma percent_newlines_append:
  "37 \<notin> set xs \<Longrightarrow> percent_newlines ys \<Longrightarrow> percent_newlines (xs @ ys)"
  by (induction xs) auto

lemma percent_newlines_drop: "percent_newlines s \<Longrightarrow> percent_newlines (drop k s)"
proof (induction s arbitrary: k)
  case Nil
  show ?case by simp
next
  case (Cons c cs)
  show ?case
  proof (cases k)
    case 0
    with Cons.prems show ?thesis by simp
  next
    case (Suc j)
    with Cons show ?thesis by simp
  qed
qed

lemma match_format_starts: "\<forall>s r. match_format args s = Some r \<longrightarrow> s \<noteq> [] \<and> hd s = 37"
  by (auto simp: match_format_def split: list.splits if_splits)

lemma match_format_clean:
  assumes "\<forall>a \<in> set args. x \<notin> set a"
  shows "\<forall>s rep n. match_format args s = Some (rep, n) \<longrightarrow> x \<notin> set rep"
  using arg_at_clean [OF assms] by (auto simp: match_format_def split: list.splits if_splits)

lemma match_plain_clean:
  assumes "\<forall>a \<in> set args. x \<notin> set a"
  shows "\<forall>s rep n. match_plain args s = Some (rep, n) \<longrightarrow> x \<notin> set rep"
  using arg_at_clean [OF assms] by (auto simp: match_plain_def split: list.splits if_splits)

lemma match_braces_clean:
  assumes "\<forall>a \<in> set args. x \<notin> set a"
  shows "\<forall>s rep n. match_braces args s = Some (rep, n) \<longrightarrow> x \<notin> set rep"
  using arg_at_clean [OF assms] by (auto simp: match_braces_def split: list.splits if_splits)

lemma match_token_clean: "\<forall>s rep n. match_token s = Some (rep, n) \<longrightarrow> x \<notin> set rep"
  by (auto simp: match_token_def split: list.splits if_splits)

text \<open>A character that is neither in the string nor in a replacement is not in the result.\<close>

lemma replace_all_notin:
  assumes "x \<notin> set s" and "\<forall>s rep n. m s = Some (rep, n) \<longrightarrow> x \<notin> set rep"
  shows "x \<notin> set (replace_all m s)"
  using assms
proof (induction m s rule: replace_all.induct)
  case (1 m)
  show ?case by simp
next
  case (2 m c cs)
  show ?case
  proof (cases "m (c # cs)")
    case None
    have "x \<notin> set cs" using "2.prems"(1) by simp
    from "2.IH"(1) [OF None this "2.prems"(2)] None "2.prems"(1) show ?thesis by simp
  next
    case (Some r)
    obtain rep n where r: "r = (rep, n)" by (cases r)
    have "x \<notin> set (drop (n - 1) cs)" using "2.prems"(1) by (auto dest: in_set_dropD)
    from "2.IH"(2) [OF Some r [symmetric] this "2.prems"(2)] have "x \<notin> set (replace_all m (drop (n - 1) cs))" .
    moreover have "x \<notin> set rep" using "2.prems"(2) Some r by blast
    ultimately show ?thesis using Some r by simp
  qed
qed

text \<open>After the pass of \<open>%N\<close>, a \<open>%\<close> that is left was followed by \<open>n\<close>.\<close>

lemma match_plain_percent_newlines:
  assumes "percent_escapes s" and "\<forall>a \<in> set args. 37 \<notin> set a"
  shows "percent_newlines (replace_all (match_plain args) s)"
  using assms(1)
proof (induction s rule: length_induct)
  case (1 s)
  note clean = match_plain_clean [OF assms(2)]
  show ?case
  proof (cases s)
    case Nil
    then show ?thesis by simp
  next
    case (Cons c cs)
    have pe: "percent_escapes cs" using "1.prems" Cons by simp
    show ?thesis
    proof (cases "match_plain args (c # cs)")
      case None
      have rest: "percent_newlines (replace_all (match_plain args) cs)"
        using "1.IH" pe Cons by simp
      show ?thesis
      proof (cases "c = 37")
        case False
        with None rest Cons show ?thesis by simp
      next
        case True
        with "1.prems" Cons obtain d ds where cs: "cs = d # ds" and d: "digit_unit d \<or> d = 110"
          by (auto split: list.splits)
        have "\<not> digit_unit d" using None True cs by (auto simp: match_plain_def split: if_splits)
        with d have d110: "d = 110" by simp
        then have "match_plain args (d # ds) = None" by (simp add: match_plain_def)
        then have "replace_all (match_plain args) cs = d # replace_all (match_plain args) ds"
          using cs by simp
        with None rest d110 Cons show ?thesis by simp
      qed
    next
      case (Some r)
      obtain rep n where r: "r = (rep, n)" by (cases r)
      have "percent_escapes (drop (n - 1) cs)" using pe by (rule percent_escapes_drop)
      then have "percent_newlines (replace_all (match_plain args) (drop (n - 1) cs))"
        using "1.IH" Cons by simp
      moreover have "37 \<notin> set rep" using clean Some r by blast
      ultimately show ?thesis using Some r Cons by (simp add: percent_newlines_append)
    qed
  qed
qed

lemma match_newline_no_percent:
  assumes "percent_newlines s"
  shows "37 \<notin> set (replace_all match_newline s)"
  using assms
proof (induction s rule: length_induct)
  case (1 s)
  show ?case
  proof (cases s)
    case Nil
    then show ?thesis by simp
  next
    case (Cons c cs)
    have pn: "percent_newlines cs" using "1.prems" Cons by simp
    show ?thesis
    proof (cases "match_newline (c # cs)")
      case None
      have "c \<noteq> 37"
      proof
        assume c: "c = 37"
        with "1.prems" Cons obtain ds where "cs = 110 # ds" by (auto split: list.splits)
        with c have "match_newline (c # cs) \<noteq> None" by (simp add: match_newline_def)
        with None show False by simp
      qed
      moreover have "37 \<notin> set (replace_all match_newline cs)" using "1.IH" pn Cons by simp
      ultimately show ?thesis using None Cons by simp
    next
      case (Some r)
      then have r: "r = ([10], 2)"
        by (auto simp: match_newline_def split: list.splits if_splits)
      have "percent_newlines (drop 1 cs)" using pn by (rule percent_newlines_drop)
      then have "37 \<notin> set (replace_all match_newline (drop 1 cs))" using "1.IH" Cons by simp
      then show ?thesis using Some r Cons by simp
    qed
  qed
qed

lemma residual_placeholder_percent: "residual_placeholder len s \<Longrightarrow> 37 \<in> set s"
  by (induction s) auto

lemma applyMessageTemplate_no_percent:
  assumes "percent_escapes template" and "\<forall>a \<in> set args. 37 \<notin> set a"
  shows "37 \<notin> set (applyMessageTemplate template args)"
proof -
  have "percent_escapes (replace_all (match_format args) template)"
    using assms(1) match_format_starts match_format_clean [OF assms(2)]
    by (rule replace_all_percent_escapes)
  then have "percent_newlines (replace_all (match_plain args)
      (replace_all (match_format args) template))"
    using assms(2) by (rule match_plain_percent_newlines)
  then have "37 \<notin> set (replace_all match_newline (replace_all (match_plain args)
      (replace_all (match_format args) template)))"
    by (rule match_newline_no_percent)
  then have "37 \<notin> set (substitute template args)"
    unfolding substitute_def using match_braces_clean [OF assms(2)] by (rule replace_all_notin)
  then show ?thesis
    unfolding applyMessageTemplate_def using match_token_clean by (rule replace_all_notin)
qed

lemma no_double_bang_drop: "no_double_bang s \<Longrightarrow> no_double_bang (drop k s)"
proof (induction s arbitrary: k)
  case Nil
  show ?case by simp
next
  case (Cons c cs)
  show ?case
  proof (cases k)
    case 0
    with Cons.prems show ?thesis by simp
  next
    case (Suc j)
    with Cons show ?thesis by simp
  qed
qed

lemma letter_unit_not_bang: "letter_unit u \<Longrightarrow> u \<noteq> 33"
  by (auto simp: letter_unit_def)

lemma match_token_not_bang: "c \<noteq> 33 \<Longrightarrow> match_token (c # cs) = None"
  by (simp add: match_token_def)

lemma replace_all_skip:
  assumes "\<forall>u \<in> set L. u \<noteq> 33"
  shows "replace_all match_token (L @ r) = L @ replace_all match_token r"
  using assms by (induction L) (simp_all add: match_token_not_bang)

lemma takeWhile_dropWhile_stop:
  assumes "\<forall>x \<in> set L. P x" and "\<not> P b"
  shows "takeWhile P (L @ b # X) = L \<and> dropWhile P (L @ b # X) = b # X"
  using assms by (induction L) auto

text \<open>
  The stripping pass leaves a token only where the string had two adjacent \<open>!\<close>: a \<open>!\<close>
  that starts no match and is not itself removed keeps the character that follows it,
  unless that character starts a match.
\<close>

lemma strip_tokens_no_residual:
  assumes "no_double_bang s"
  shows "\<not> residual_token (replace_all match_token s)"
  using assms
proof (induction s rule: length_induct)
  case (1 s)
  show ?case
  proof (cases s)
    case Nil
    then show ?thesis by simp
  next
    case (Cons c cs)
    have nd: "no_double_bang cs" using "1.prems" Cons by simp
    show ?thesis
    proof (cases "match_token (c # cs)")
      case None
      have rest: "\<not> residual_token (replace_all match_token cs)" using "1.IH" nd Cons by simp
      have "match_token (c # replace_all match_token cs) = None"
      proof (cases "c = 33")
        case False
        then show ?thesis by (rule match_token_not_bang)
      next
        case True
        define L where "L = takeWhile letter_unit cs"
        define r where "r = dropWhile letter_unit cs"
        have cs: "cs = L @ r" by (simp add: L_def r_def)
        have letters: "\<forall>x \<in> set L. letter_unit x"
          unfolding L_def by (auto dest: set_takeWhileD)
        then have nb: "\<forall>u \<in> set L. u \<noteq> 33" by (auto dest: letter_unit_not_bang)
        have R: "replace_all match_token cs = L @ replace_all match_token r"
          unfolding cs using nb by (rule replace_all_skip)
        show ?thesis
        proof (cases r)
          case Nil
          then have RL: "replace_all match_token cs = L" using R by simp
          have dw: "dropWhile letter_unit L = []"
            using letters by simp
          show ?thesis by (simp add: match_token_def RL dw)
        next
          case (Cons b r')
          have nl: "\<not> letter_unit b"
            using Cons hd_dropWhile [of letter_unit cs] unfolding r_def by fastforce
          have b: "b \<noteq> 33"
          proof (cases "L = []")
            case True
            then have "cs = b # r'" using cs Cons by simp
            with "1.prems" \<open>s = c # cs\<close> \<open>c = 33\<close> show ?thesis by simp
          next
            case False
            show ?thesis
            proof
              assume "b = 33"
              with False Cons \<open>c = 33\<close> have "match_token (c # cs) \<noteq> None"
                by (simp add: match_token_def L_def [symmetric] r_def [symmetric])
              with None show False by simp
            qed
          qed
          then have "replace_all match_token r = b # replace_all match_token r'"
            using Cons by (simp add: match_token_not_bang)
          then have R': "replace_all match_token cs = L @ b # replace_all match_token r'"
            using R by simp
          from takeWhile_dropWhile_stop [OF letters nl, of "replace_all match_token r'"]
          show ?thesis using b by (simp add: match_token_def R')
        qed
      qed
      with rest None Cons show ?thesis by simp
    next
      case (Some r)
      then obtain n where r: "r = ([], n)"
        by (auto simp: match_token_def split: list.splits if_splits)
      have "no_double_bang (drop (n - 1) cs)" using nd by (rule no_double_bang_drop)
      then have "\<not> residual_token (replace_all match_token (drop (n - 1) cs))"
        using "1.IH" Cons by simp
      then show ?thesis using Some r Cons by simp
    qed
  qed
qed

text \<open>
  C9. Placeholder substitution. When no argument holds a \<open>%\<close> and every \<open>%\<close> of the
  template is directly followed by a digit or by \<open>n\<close>, the result holds no \<open>%\<close> at all, so
  no residual \<open>%N\<close>. When the text after the four substitution passes has no two adjacent
  \<open>!\<close>, the result holds no residual \<open>!fmt!\<close> token.
\<close>

theorem applyMessageTemplate_no_residual:
  "(percent_escapes template \<and> (\<forall>a \<in> set args. 37 \<notin> set a)
      \<longrightarrow> 37 \<notin> set (applyMessageTemplate template args)
          \<and> \<not> residual_placeholder (length args) (applyMessageTemplate template args))
   \<and> (no_double_bang (substitute template args)
      \<longrightarrow> \<not> residual_token (applyMessageTemplate template args))"
proof (intro conjI impI)
  assume a: "percent_escapes template \<and> (\<forall>a \<in> set args. 37 \<notin> set a)"
  then show np: "37 \<notin> set (applyMessageTemplate template args)"
    using applyMessageTemplate_no_percent by blast
  then show "\<not> residual_placeholder (length args) (applyMessageTemplate template args)"
    using residual_placeholder_percent by blast
next
  assume "no_double_bang (substitute template args)"
  then show "\<not> residual_token (applyMessageTemplate template args)"
    unfolding applyMessageTemplate_def by (rule strip_tokens_no_residual)
qed

lemmas template_simps = applyMessageTemplate_def substitute_def match_format_def
  match_plain_def match_newline_def match_braces_def match_token_def digit_unit_def
  letter_unit_def parseInt_units_def arg_at_def

theorem applyMessageTemplate_no_residual_witness:
  "applyMessageTemplate (ascii ''User %1!s! ran %2%n{0}!S!'') [ascii ''bob'', ascii ''ls'']
     = ascii ''User bob ran ls'' @ [10] @ ascii ''bob''
   \<and> 37 \<notin> set (applyMessageTemplate (ascii ''User %1!s! ran %2%n{0}!S!'')
        [ascii ''bob'', ascii ''ls''])
   \<and> \<not> residual_placeholder (length [ascii ''bob'', ascii ''ls''])
        (applyMessageTemplate (ascii ''User %1!s! ran %2%n{0}!S!'') [ascii ''bob'', ascii ''ls''])
   \<and> \<not> residual_token
        (applyMessageTemplate (ascii ''User %1!s! ran %2%n{0}!S!'') [ascii ''bob'', ascii ''ls''])"
  using applyMessageTemplate_no_residual
    [of "ascii ''User %1!s! ran %2%n{0}!S!''" "[ascii ''bob'', ascii ''ls'']"]
  by (simp add: template_simps)

text \<open>
  The text of an argument is not scanned again, and removing a token can join a new one:
  the argument \<open>%1\<close> is left in the result of the template \<open>%1\<close>, and the template
  \<open>!!S!a!\<close> gives \<open>!a!\<close>.
\<close>

theorem residual_placeholder_and_token:
  "applyMessageTemplate (ascii ''%1'') [ascii ''%1''] = ascii ''%1''
   \<and> residual_placeholder (length [ascii ''%1''])
        (applyMessageTemplate (ascii ''%1'') [ascii ''%1''])
   \<and> applyMessageTemplate (ascii ''!!S!a!'') [] = ascii ''!a!''
   \<and> residual_token (applyMessageTemplate (ascii ''!!S!a!'') [])"
  by (simp add: template_simps)

subsection \<open>Elements: where the content parse starts and where it ends\<close>




















subsection \<open>Embedded BXML: the substitution header by its bytes\<close>

lemma read_declarations_embedded_full:
  assumes "position r = p" and "0 \<le> p" and "p + 4 * int n \<le> rsize r"
  shows "read_declarations_embedded n r
         = (Inr (map (decl_at r p) [0..<n]), r\<lparr>position := p + 4 * int n\<rparr>)"
  using assms
proof (induction n arbitrary: r p)
  case 0
  then show ?case by simp
next
  case (Suc n)
  have one: "rbind u16le (\<lambda>size. rbind u8 (\<lambda>type. rbind u8 (\<lambda>reserved.
           rreturn \<lparr>dsize = size, dtype = type\<rparr>))) r
         = (Inr (decl_at r p 0), r\<lparr>position := p + 4\<rparr>)"
    using Suc.prems by (intro read_one_declaration) simp_all
  have ih: "read_declarations_embedded n (r\<lparr>position := p + 4\<rparr>)
         = (Inr (map (decl_at (r\<lparr>position := p + 4\<rparr>) (p + 4)) [0..<n]),
            r\<lparr>position := p + 4, position := p + 4 + 4 * int n\<rparr>)"
    using Suc.prems by (intro Suc.IH) (simp_all add: rsize_def)
  have m: "map (decl_at r p) [0..<Suc n] = decl_at r p 0 # map (decl_at r (p + 4)) [0..<n]"
    by (simp add: upt_conv_Cons map_Suc_upt [symmetric] decl_at_shift del: upt_Suc)
  show ?case
    by (simp add: one ih m del: upt_Suc)
qed

text \<open>
  The embedded header by its bytes: the count is the little-endian \<open>u32\<close> at the header
  offset, the declarations are the entries that follow it, and the values are decoded
  from the end of the declarations.
\<close>

lemma embedded_substitutions_bytes:
  assumes "buffer r1 = buffer r" and "u32leAt r off = Inr c" and "off + 4 + 4 * c \<le> rsize r"
  shows "embedded_substitutions tza off r1
         = (case read_values_embedded tza (map (decl_at r (off + 4)) [0..<nat c])
                   (r\<lparr>position := off + 4 + 4 * c\<rparr>) of
              (Inl e, r2) \<Rightarrow> ([], r2)
            | (Inr vals, r2) \<Rightarrow> (vals, r2))"
proof -
  have b: "0 \<le> off \<and> off + 4 \<le> rsize r"
    using assms(2) by (auto simp: u32leAt_def checkBounds_def split: if_splits)
  have c0: "0 \<le> c"
    using assms(2) getUint32le_range [of r off] by (auto simp: u32leAt_def split: sum.splits)
  have rs: "rsize r1 = rsize r" using assms(1) by (simp add: rsize_def)
  have eq: "\<And>x. r1\<lparr>position := x\<rparr> = r\<lparr>position := x\<rparr>" using assms(1) by simp
  have sk: "seek off r1 = (Inr (), r\<lparr>position := off\<rparr>)"
    using b rs eq by (simp add: seek_def)
  have cnt: "u32le (r\<lparr>position := off\<rparr>) = (Inr c, r\<lparr>position := off + 4\<rparr>)"
    using assms(2) u32leAt_buffer [of "r\<lparr>position := off\<rparr>" r]
    by (simp add: u32le_def advance_def)
  have dec: "read_declarations_embedded (nat c) (r\<lparr>position := off + 4\<rparr>)
        = (Inr (map (decl_at r (off + 4)) [0..<nat c]), r\<lparr>position := off + 4 + 4 * c\<rparr>)"
    using read_declarations_embedded_full [of "r\<lparr>position := off + 4\<rparr>" "off + 4" "nat c"]
      b c0 assms(3)
    by simp
  show ?thesis
    by (simp add: embedded_substitutions_def rbind_def sk cnt dec split: prod.splits sum.splits)
qed

lemma embedded_substitutions_no_count:
  assumes "buffer r1 = buffer r" and "u32leAt r off = Inl e"
  shows "fst (embedded_substitutions tza off r1) = []"
proof (cases "off < 0 \<or> off > rsize r1")
  case True
  then show ?thesis by (simp add: embedded_substitutions_def rbind_def seek_def)
next
  case False
  have "u32leAt (r1\<lparr>position := off\<rparr>) off = Inl e"
    using assms u32leAt_buffer [of "r1\<lparr>position := off\<rparr>" r] by simp
  then show ?thesis
    using False
    by (simp add: embedded_substitutions_def rbind_def seek_def u32le_def advance_def)
qed

text \<open>
  C3. In the embedded parse no node follows a \<open>TemplateInstance\<close>: the token loop returns
  in the state its constructor left. The substitution header is at
  \<open>off = base_offset + (sum of the declared lengths of the nodes other than EndOfStream)\<close>,
  with no \<open>- 1\<close>, wherever the reader stands after the loop: the count is the little-endian
  \<open>u32\<close> of the bytes at \<open>off\<close>, the declarations are the entries \<open>(size u16, type u8,
  reserved u8)\<close> at \<open>off + 4\<close>, and the values are decoded from \<open>off + 4 + 4 * count\<close> on.
  When no count can be read at \<open>off\<close> the substitutions are empty.
\<close>

theorem embedded_parse_stops_at_template_instance:
  assumes "parseEmbeddedRootNodeAtOffset tza k (fromStream tza m) base len (r, ch)
           = Some (Inr (ti, subs), (r', ch'))"
  shows "\<exists>nodes r1.
      embedded_loop k (fromStream tza m) (base + len + 64) ([], 0, None) (r\<lparr>position := base\<rparr>, ch)
        = Some (Inr (nodes, declared_sum nodes, ti), (r1, ch'))
    \<and> (\<forall>n \<in> set (butlast nodes). \<not> is_TemplateInstanceNode n)
    \<and> (ti \<noteq> None \<longrightarrow> ti = Some (last nodes)
          \<and> (\<exists>sb. fromStream tza m True sb = Some (Inr (last nodes), (r1, ch'))))
    \<and> buffer r1 = buffer r
    \<and> (\<forall>c. u32leAt r (base + declared_sum nodes) = Inr c
            \<and> base + declared_sum nodes + 4 + 4 * c \<le> rsize r
          \<longrightarrow> (subs, r')
              = (case read_values_embedded tza
                        (map (decl_at r (base + declared_sum nodes + 4)) [0..<nat c])
                        (r\<lparr>position := base + declared_sum nodes + 4 + 4 * c\<rparr>) of
                   (Inl e, r2) \<Rightarrow> ([], r2)
                 | (Inr vals, r2) \<Rightarrow> (vals, r2)))
    \<and> ((\<exists>e. u32leAt r (base + declared_sum nodes) = Inl e) \<longrightarrow> subs = [])"
proof -
  let ?f = "fromStream tza m"
  from assms obtain r0 where sk: "seek base r = (Inr (), r0)"
    by (auto simp: parseEmbeddedRootNodeAtOffset_def xbind_Some_Inr liftR_Some)
  then have r0: "r0 = r\<lparr>position := base\<rparr>" by (rule seek_Inr)
  from assms sk obtain acc s1 where
    lp0: "embedded_loop k ?f (base + len + 64) ([], 0, None) (r0, ch) = Some (Inr acc, s1)"
    and rest: "xbind (liftR (\<lambda>r. (case embedded_substitutions tza (base + fst (snd acc)) r of
                          (substitutions, r') \<Rightarrow> (Inr substitutions, r'))))
                 (\<lambda>substitutions. xreturn (snd (snd acc), substitutions)) s1
               = Some (Inr (ti, subs), (r', ch'))"
    by (auto simp: parseEmbeddedRootNodeAtOffset_def xbind_Some_Inr liftR_Some)
  obtain r1 ch1 where s1: "s1 = (r1, ch1)" by (cases s1)
  obtain sb rb where eb: "embedded_substitutions tza (base + fst (snd acc)) r1 = (sb, rb)"
    by (cases "embedded_substitutions tza (base + fst (snd acc)) r1")
  from rest s1 eb have "sb = subs" "rb = r'" "ti = snd (snd acc)" "ch' = ch1"
    by (simp_all add: xbind_def liftR_def xreturn_def)
  then have es: "embedded_substitutions tza (base + fst (snd acc)) r1 = (subs, r')"
    and t: "ti = snd (snd acc)" and c: "ch' = ch1"
    using eb by simp_all
  have lp: "embedded_loop k ?f (base + len + 64) ([], 0, None) (r0, ch) = Some (Inr acc, (r1, ch1))"
    using lp0 s1 by simp
  have "st_rel (r0, ch) (r1, ch1)"
    using ppresD [OF ppres_embedded_loop [of ?f, OF ppres_fromStream] lp] .
  then have buf: "buffer r1 = buffer r" using r0 by (simp add: st_rel_def)
  obtain ns d t' where acc: "acc = (ns, d, t')" by (cases acc)
  from embedded_loop_result [OF lp [unfolded acc]] obtain new where
    n1: "ns = [] @ new" and n2: "d = 0 + declared_sum new"
    and n3: "\<forall>n \<in> set (butlast new). \<not> is_TemplateInstanceNode n \<and> \<not> is_EndOfStreamNode n"
    and n4: "t' = (if new \<noteq> [] \<and> is_TemplateInstanceNode (last new) then Some (last new) else None)"
    and n5: "new \<noteq> [] \<and> is_TemplateInstanceNode (last new)
        \<longrightarrow> (\<exists>sb. ?f True sb = Some (Inr (last new), (r1, ch1)))"
    by blast
  have off: "base + fst (snd acc) = base + declared_sum ns" using acc n1 n2 by simp
  show ?thesis
  proof (intro exI [of _ ns] exI [of _ r1] conjI allI impI)
    show "embedded_loop k ?f (base + len + 64) ([], 0, None) (r\<lparr>position := base\<rparr>, ch)
        = Some (Inr (ns, declared_sum ns, ti), (r1, ch'))"
      using lp acc n1 n2 t c r0 by simp
    show "\<forall>n \<in> set (butlast ns). \<not> is_TemplateInstanceNode n" using n1 n3 by simp
    show "buffer r1 = buffer r" by (rule buf)
  next
    assume "ti \<noteq> None"
    then show "ti = Some (last ns)"
      and "\<exists>sb. ?f True sb = Some (Inr (last ns), (r1, ch'))"
      using n1 n4 n5 t acc c by (auto split: if_splits)
  next
    fix cnt
    assume a: "u32leAt r (base + declared_sum ns) = Inr cnt
            \<and> base + declared_sum ns + 4 + 4 * cnt \<le> rsize r"
    show "(subs, r')
              = (case read_values_embedded tza
                        (map (decl_at r (base + declared_sum ns + 4)) [0..<nat cnt])
                        (r\<lparr>position := base + declared_sum ns + 4 + 4 * cnt\<rparr>) of
                   (Inl e, r2) \<Rightarrow> ([], r2)
                 | (Inr vals, r2) \<Rightarrow> (vals, r2))"
      using embedded_substitutions_bytes [OF buf, of "base + declared_sum ns" cnt tza] a es off
      by simp
  next
    assume "\<exists>e. u32leAt r (base + declared_sum ns) = Inl e"
    then obtain e where "u32leAt r (base + declared_sum ns) = Inl e" by blast
    from embedded_substitutions_no_count [OF buf this, of tza] es off
    show "subs = []" by simp
  qed
qed

lemmas embedded_simps = parseEmbeddedRootNodeAtOffset_def chunk_of_def
  xbind_def xreturn_def xcatch_def liftR_def liftC_def reader_simps
  StartOfStreamNode_ctor_def TemplateInstanceNode_ctor_def get_tell_def get_chunk_offset_def
  get_rsize_def is_TemplateInstanceNode_def is_EndOfStreamNode_def embedded_substitutions_def
  addTemplate_def TemplateNode_ctor_def parseChildren_def cloned_reader_def
  parse_def parse_switch_def fixed_def Let_def

lemma resident_eval:
  "parseEmbeddedRootNodeAtOffset (\<lambda>t. 0) (Suc (Suc 0)) (fromStream (\<lambda>t. 0) (Suc (Suc 0))) 0 49
     (\<lparr>buffer = resident_bytes, position = 0\<rparr>, chunk_of resident_bytes)
   = Some (Inr (Some (TemplateInstanceNode 12 1 16 14 25 True 4), [VNum 12345]),
           (\<lparr>buffer = resident_bytes, position = 49\<rparr>,
            (chunk_of resident_bytes)
              \<lparr>template_cache := [14 \<mapsto> \<lparr>tn_offset = 14, tn_nextOffset = 0, tn_templateId = 16,
                  tn_guid = [0x10, 0, 0, 0, 0, 0, 0, 0, 0, 0, 0, 0, 0, 0, 0, 0],
                  tn_dataLength = 1, tn_children = [EndOfStreamNode 0]\<rparr>]\<rparr>))"
  by (simp add: resident_bytes_def embedded_simps)

lemma resident_loop_eval:
  "embedded_loop (Suc (Suc 0)) (fromStream (\<lambda>t. 0) (Suc (Suc 0))) (0 + 49 + 64) ([], 0, None)
     (\<lparr>buffer = resident_bytes, position = 0\<rparr>\<lparr>position := 0\<rparr>, chunk_of resident_bytes)
   = Some (Inr ([StartOfStreamNode 15 1 1, TemplateInstanceNode 12 1 16 14 25 True 4], 39,
                Some (TemplateInstanceNode 12 1 16 14 25 True 4)),
           (\<lparr>buffer = resident_bytes, position = 14\<rparr>,
            (chunk_of resident_bytes)
              \<lparr>template_cache := [14 \<mapsto> \<lparr>tn_offset = 14, tn_nextOffset = 0, tn_templateId = 16,
                  tn_guid = [0x10, 0, 0, 0, 0, 0, 0, 0, 0, 0, 0, 0, 0, 0, 0, 0],
                  tn_dataLength = 1, tn_children = [EndOfStreamNode 0]\<rparr>]\<rparr>))"
  by (simp add: resident_bytes_def embedded_simps)

theorem embedded_parse_stops_at_template_instance_witness:
  "\<exists>nodes (r1 :: reader) ch'.
     parseEmbeddedRootNodeAtOffset (\<lambda>t. 0) (Suc (Suc 0)) (fromStream (\<lambda>t. 0) (Suc (Suc 0))) 0 49
       (\<lparr>buffer = resident_bytes, position = 0\<rparr>, chunk_of resident_bytes)
     = Some (Inr (Some (TemplateInstanceNode 12 1 16 14 25 True 4), [VNum 12345]),
             (\<lparr>buffer = resident_bytes, position = 49\<rparr>, ch'))
     \<and> nodes = [StartOfStreamNode 15 1 1, TemplateInstanceNode 12 1 16 14 25 True 4]
     \<and> declared_sum nodes = 39 \<and> position r1 = 14
     \<and> u32leAt \<lparr>buffer = resident_bytes, position = 0\<rparr> (0 + declared_sum nodes) = Inr 1
     \<and> ([VNum 12345], \<lparr>buffer = resident_bytes, position = 49\<rparr>)
         = (case read_values_embedded (\<lambda>t. 0) [\<lparr>dsize = 2, dtype = 6\<rparr>]
                   \<lparr>buffer = resident_bytes, position = 47\<rparr> of
              (Inl e, r2) \<Rightarrow> ([], r2)
            | (Inr vals, r2) \<Rightarrow> (vals, r2))"
proof -
  let ?r = "\<lparr>buffer = resident_bytes, position = 0\<rparr>"
  let ?ti = "TemplateInstanceNode 12 1 16 14 25 True 4"
  from embedded_parse_stops_at_template_instance [OF resident_eval] obtain nodes r1 where
    lp: "embedded_loop (Suc (Suc 0)) (fromStream (\<lambda>t. 0) (Suc (Suc 0))) (0 + 49 + 64)
           ([], 0, None) (?r\<lparr>position := 0\<rparr>, chunk_of resident_bytes)
         = Some (Inr (nodes, declared_sum nodes, Some ?ti), (r1,
            (chunk_of resident_bytes)
              \<lparr>template_cache := [14 \<mapsto> \<lparr>tn_offset = 14, tn_nextOffset = 0, tn_templateId = 16,
                  tn_guid = [0x10, 0, 0, 0, 0, 0, 0, 0, 0, 0, 0, 0, 0, 0, 0, 0],
                  tn_dataLength = 1, tn_children = [EndOfStreamNode 0]\<rparr>]\<rparr>))"
    and hd: "\<forall>c. u32leAt ?r (0 + declared_sum nodes) = Inr c
            \<and> 0 + declared_sum nodes + 4 + 4 * c \<le> rsize ?r
          \<longrightarrow> ([VNum 12345], \<lparr>buffer = resident_bytes, position = 49\<rparr>)
              = (case read_values_embedded (\<lambda>t. 0)
                        (map (decl_at ?r (0 + declared_sum nodes + 4)) [0..<nat c])
                        (?r\<lparr>position := 0 + declared_sum nodes + 4 + 4 * c\<rparr>) of
                   (Inl e, r2) \<Rightarrow> ([], r2)
                 | (Inr vals, r2) \<Rightarrow> (vals, r2))"
    by blast
  from lp have nodes: "nodes = [StartOfStreamNode 15 1 1, ?ti]"
    and r1: "r1 = \<lparr>buffer = resident_bytes, position = 14\<rparr>"
    unfolding resident_loop_eval by simp_all
  have ds: "declared_sum nodes = 39" by (simp add: nodes is_EndOfStreamNode_def)
  have cnt: "u32leAt ?r 39 = Inr 1" by (simp add: resident_bytes_def reader_simps)
  have fit: "0 + 39 + 4 + 4 * 1 \<le> rsize ?r" by (simp add: resident_bytes_def rsize_def)
  have decls: "map (decl_at ?r (0 + 39 + 4)) [0..<nat 1] = [\<lparr>dsize = 2, dtype = 6\<rparr>]"
    by (simp add: decl_at_def resident_bytes_def byteAt_def)
  from hd [rule_format, of 1] cnt fit
  have vals: "([VNum 12345], \<lparr>buffer = resident_bytes, position = 49\<rparr>)
         = (case read_values_embedded (\<lambda>t. 0) [\<lparr>dsize = 2, dtype = 6\<rparr>]
                   \<lparr>buffer = resident_bytes, position = 47\<rparr> of
              (Inl e, r2) \<Rightarrow> ([], r2)
            | (Inr vals, r2) \<Rightarrow> (vals, r2))"
    unfolding ds decls by simp
  show ?thesis
  proof (intro exI conjI)
    show "parseEmbeddedRootNodeAtOffset (\<lambda>t. 0) (Suc (Suc 0)) (fromStream (\<lambda>t. 0) (Suc (Suc 0))) 0 49
       (?r, chunk_of resident_bytes)
     = Some (Inr (Some ?ti, [VNum 12345]),
             (\<lparr>buffer = resident_bytes, position = 49\<rparr>,
              (chunk_of resident_bytes)
              \<lparr>template_cache := [14 \<mapsto> \<lparr>tn_offset = 14, tn_nextOffset = 0, tn_templateId = 16,
                  tn_guid = [0x10, 0, 0, 0, 0, 0, 0, 0, 0, 0, 0, 0, 0, 0, 0, 0],
                  tn_dataLength = 1, tn_children = [EndOfStreamNode 0]\<rparr>]\<rparr>))"
      by (rule resident_eval)
    show "nodes = [StartOfStreamNode 15 1 1, ?ti]" by (rule nodes)
    show "declared_sum nodes = 39" by (rule ds)
    show "position r1 = 14" by (simp add: r1)
    show "u32leAt ?r (0 + declared_sum nodes) = Inr 1" using cnt by (simp add: ds)
    show "([VNum 12345], \<lparr>buffer = resident_bytes, position = 49\<rparr>)
         = (case read_values_embedded (\<lambda>t. 0) [\<lparr>dsize = 2, dtype = 6\<rparr>]
                   \<lparr>buffer = resident_bytes, position = 47\<rparr> of
              (Inl e, r2) \<Rightarrow> ([], r2)
            | (Inr vals, r2) \<Rightarrow> (vals, r2))"
      by (rule vals)
  qed
qed

end
